theory Spec2Isabelle
  imports Complex_Main
begin

section \<open>Overview\<close>

text \<open>
  A shallow embedding of the orchestration engine of supergrok-cli: the account
  manager (\<open>account-manager.ts\<close>), the store (\<open>database.ts\<close>), the sub-agent
  (\<open>sub-agent.ts\<close>) and the super-agent (\<open>super-agent.ts\<close>).

  Mutable objects are records passed through the functions.  A method that can throw
  returns a sum, \<open>Inl\<close> carrying the thrown value; a statement of the store returns
  the value it throws, if any.  What the engine does not decide is an environment of
  oracles: the identifiers \<open>uuidv4\<close> generates, what the transport answers to each
  request, the passing of time, which suspended worker continues next, and the
  faults of the database engine.  An asynchronous function runs in segments between
  its suspensions; segments of different workers interleave in any order, which
  covers the orders the event loop can produce.  A computation that need not return
  (a worker can wait for an available account forever) has an optional result,
  \<open>None\<close> standing for no return.
\<close>

section \<open>Resource allocator: \<open>src/orchestration/account-manager.ts\<close>\<close>

text \<open>
  The account manager owns exactly two accounts, keyed \<open>'account1'\<close> and
  \<open>'account2'\<close>.  Counters that the code only ever increments, decrements or
  compares are integers; token counts are integers, costs are JavaScript numbers and
  are modelled as reals (rounding of doubles is not modelled).  \<open>Date.now()\<close> is a
  parameter \<open>now\<close> of every operation that reads the clock; one synchronous call
  reads one clock value.  The \<open>GrokClient\<close> handle stored with each account is
  represented by the account's key: the transport is an oracle of the environment
  (see below).
\<close>

datatype accountId = Account1 | Account2

datatype strategy = RoundRobin | LeastLoaded | CostOptimized

record accountConfig =
  apiKey :: string
  baseURL :: "string option"
  name :: string
  maxConcurrent :: int
  rateLimit :: int

record accountStats =
  totalRequests :: int
  totalTokens :: int
  totalCost :: real
  activeRequests :: int
  lastUsed :: int

record account =
  config :: accountConfig
  stats :: accountStats
  requestTimestamps :: "int list"

record accountManager =
  accounts :: "accountId \<Rightarrow> account"
  strategy :: strategy
  currentAccountIndex :: nat

definition newAccount :: "accountConfig \<Rightarrow> account" where
  "newAccount c =
     \<lparr>config = c,
      stats = \<lparr>totalRequests = 0, totalTokens = 0, totalCost = 0,
               activeRequests = 0, lastUsed = 0\<rparr>,
      requestTimestamps = []\<rparr>"

definition newAccountManager ::
  "accountConfig \<Rightarrow> accountConfig \<Rightarrow> strategy \<Rightarrow> accountManager" where
  "newAccountManager account1 account2 strat =
     \<lparr>accounts = (\<lambda>k. case k of Account1 \<Rightarrow> newAccount account1
                              | Account2 \<Rightarrow> newAccount account2),
      strategy = strat,
      currentAccountIndex = 0\<rparr>"

definition setAccount :: "accountId \<Rightarrow> account \<Rightarrow> accountManager \<Rightarrow> accountManager" where
  "setAccount k a m = m\<lparr>accounts := (accounts m)(k := a)\<rparr>"

text \<open>
  \<open>isRateLimited\<close> prunes the timestamp window of the account (a mutation) and
  then compares the number of remaining timestamps with the configured limit.
\<close>

definition isRateLimited :: "accountId \<Rightarrow> int \<Rightarrow> accountManager \<Rightarrow> bool \<times> accountManager" where
  "isRateLimited accountId now m =
     (let account = accounts m accountId;
          oneMinuteAgo = now - 60000;
          kept = filter (\<lambda>ts. ts > oneMinuteAgo) (requestTimestamps account);
          m' = setAccount accountId (account\<lparr>requestTimestamps := kept\<rparr>) m
      in (int (length kept) \<ge> rateLimit (config account), m'))"

text \<open>
  \<open>this.isRateLimited(a) && !this.isRateLimited(b)\<close>: the second check (and its
  pruning) only happens when the first one answered true.
\<close>

definition limitedAndNot ::
  "accountId \<Rightarrow> accountId \<Rightarrow> int \<Rightarrow> accountManager \<Rightarrow> bool \<times> accountManager" where
  "limitedAndNot a b now m =
     (case isRateLimited a now m of
        (la, m1) \<Rightarrow>
          if la then (case isRateLimited b now m1 of (lb, m2) \<Rightarrow> (\<not> lb, m2))
          else (False, m1))"

definition selectRoundRobin :: "accountManager \<Rightarrow> accountId \<times> accountManager" where
  "selectRoundRobin m =
     (let selected = [Account1, Account2] ! (currentAccountIndex m mod 2)
      in (selected, m\<lparr>currentAccountIndex := currentAccountIndex m + 1\<rparr>))"

definition selectLeastLoaded :: "int \<Rightarrow> accountManager \<Rightarrow> accountId \<times> accountManager" where
  "selectLeastLoaded now m =
     (case limitedAndNot Account1 Account2 now m of
        (c1, m1) \<Rightarrow>
          if c1 then (Account2, m1)
          else (case limitedAndNot Account2 Account1 now m1 of
                  (c2, m2) \<Rightarrow>
                    if c2 then (Account1, m2)
                    else (if activeRequests (stats (accounts m2 Account1))
                               \<le> activeRequests (stats (accounts m2 Account2))
                          then Account1 else Account2, m2)))"

definition selectCostOptimized :: "int \<Rightarrow> accountManager \<Rightarrow> accountId \<times> accountManager" where
  "selectCostOptimized now m =
     (case limitedAndNot Account1 Account2 now m of
        (c1, m1) \<Rightarrow>
          if c1 then (Account2, m1)
          else (case limitedAndNot Account2 Account1 now m1 of
                  (c2, m2) \<Rightarrow>
                    if c2 then (Account1, m2)
                    else (if totalCost (stats (accounts m2 Account1))
                               \<le> totalCost (stats (accounts m2 Account2))
                          then Account1 else Account2, m2)))"

definition selectAccount :: "int \<Rightarrow> accountManager \<Rightarrow> accountId \<times> accountManager" where
  "selectAccount now m =
     (case strategy m of
        RoundRobin \<Rightarrow> selectRoundRobin m
      | LeastLoaded \<Rightarrow> selectLeastLoaded now m
      | CostOptimized \<Rightarrow> selectCostOptimized now m)"

text \<open>
  \<open>getClient(accountId?)\<close>: an explicit account is used as it is, otherwise the
  policy selects one; the request is then tracked on that account.
\<close>

definition trackRequest :: "int \<Rightarrow> account \<Rightarrow> account" where
  "trackRequest now a =
     a\<lparr>requestTimestamps := requestTimestamps a @ [now],
       stats := (stats a)\<lparr>activeRequests := activeRequests (stats a) + 1,
                          totalRequests := totalRequests (stats a) + 1,
                          lastUsed := now\<rparr>\<rparr>"

definition getClient ::
  "accountId option \<Rightarrow> int \<Rightarrow> accountManager \<Rightarrow> accountId \<times> accountManager" where
  "getClient accountId now m =
     (case (case accountId of Some a \<Rightarrow> (a, m) | None \<Rightarrow> selectAccount now m) of
        (selectedAccount, m1) \<Rightarrow>
          (selectedAccount,
           setAccount selectedAccount (trackRequest now (accounts m1 selectedAccount)) m1))"

definition completeRequest :: "accountId \<Rightarrow> int \<Rightarrow> real \<Rightarrow> accountManager \<Rightarrow> accountManager" where
  "completeRequest accountId tokensUsed cost m =
     (let a = accounts m accountId
      in setAccount accountId
           (a\<lparr>stats := (stats a)\<lparr>activeRequests := max 0 (activeRequests (stats a) - 1),
                                totalTokens := totalTokens (stats a) + tokensUsed,
                                totalCost := totalCost (stats a) + cost\<rparr>\<rparr>) m)"

definition setStrategy :: "strategy \<Rightarrow> accountManager \<Rightarrow> accountManager" where
  "setStrategy strat m = m\<lparr>strategy := strat\<rparr>"

text \<open>
  One synchronous poll of \<open>waitForAvailability\<close>: the loop condition
  \<open>isRateLimited('account1') && isRateLimited('account2')\<close>.
\<close>

definition bothRateLimited :: "int \<Rightarrow> accountManager \<Rightarrow> bool \<times> accountManager" where
  "bothRateLimited now m =
     (case isRateLimited Account1 now m of
        (l1, m1) \<Rightarrow>
          if l1 then isRateLimited Account2 now m1 else (False, m1))"

subsection \<open>Sequences of allocator calls\<close>

text \<open>
  A client of the allocator issues calls one after the other, each at some clock
  value.  \<open>runOps\<close> performs a sequence of calls and collects what every run of
  \<open>selectAccount\<close> returned (a direct call, or the one inside \<open>getClient()\<close>
  without an explicit account).
\<close>

datatype amOp =
  OpSelectAccount
  | OpGetClient "accountId option"
  | OpCompleteRequest accountId int real
  | OpIsRateLimited accountId

fun applyOp :: "int \<times> amOp \<Rightarrow> accountManager \<Rightarrow> accountId list \<times> accountManager" where
  "applyOp (now, OpSelectAccount) m =
     (case selectAccount now m of (a, m') \<Rightarrow> ([a], m'))"
| "applyOp (now, OpGetClient None) m =
     (case getClient None now m of (a, m') \<Rightarrow> ([a], m'))"
| "applyOp (now, OpGetClient (Some k)) m =
     (case getClient (Some k) now m of (a, m') \<Rightarrow> ([], m'))"
| "applyOp (now, OpCompleteRequest k t c) m = ([], completeRequest k t c m)"
| "applyOp (now, OpIsRateLimited k) m = ([], snd (isRateLimited k now m))"

fun runOps :: "(int \<times> amOp) list \<Rightarrow> accountManager \<Rightarrow> accountId list \<times> accountManager" where
  "runOps [] m = ([], m)"
| "runOps (x # xs) m =
     (case applyOp x m of
        (sel, m1) \<Rightarrow> (case runOps xs m1 of (sels, m2) \<Rightarrow> (sel @ sels, m2)))"

fun selects :: "amOp \<Rightarrow> bool" where
  "selects OpSelectAccount = True"
| "selects (OpGetClient None) = True"
| "selects _ = False"

text \<open>The spec's wording of the sliding window: how many recorded requests are
  less than 60 seconds old.\<close>

definition requestsInWindow :: "int \<Rightarrow> int list \<Rightarrow> nat" where
  "requestsInWindow now tss = length (filter (\<lambda>ts. now - ts < 60000) tss)"

section \<open>Values, tasks and results\<close>

text \<open>
  Sub-task entries come out of \<open>JSON.parse\<close> and are used untyped, so their
  fields are JavaScript values.  \<open>JObj\<close> lists the own properties of an object,
  one entry per key.
\<close>

datatype jsval =
  JUndefined | JNull | JBool bool | JNum real | JStr string
  | JArr "jsval list" | JObj "(string \<times> jsval) list"

text \<open>A thrown value: an \<open>Error\<close> instance with its message, or anything else.\<close>

datatype exn = JsError string | NonError

text \<open>\<open>error instanceof Error ? error.message : 'Unknown error'\<close>\<close>

definition errorMessage :: "exn \<Rightarrow> string" where
  "errorMessage error = (case error of JsError m \<Rightarrow> m | NonError \<Rightarrow> ''Unknown error'')"

fun truthy :: "jsval \<Rightarrow> bool" where
  "truthy JUndefined = False"
| "truthy JNull = False"
| "truthy (JBool b) = b"
| "truthy (JNum x) = (x \<noteq> 0)"
| "truthy (JStr s) = (s \<noteq> [])"
| "truthy (JArr xs) = True"
| "truthy (JObj kvs) = True"

text \<open>\<open>a || b\<close> on values.\<close>

definition orElse :: "jsval \<Rightarrow> jsval \<Rightarrow> jsval" where
  "orElse a b = (if truthy a then a else b)"

text \<open>\<open>s || d\<close> on an optional string (\<open>undefined\<close>, \<open>null\<close> and \<open>''\<close> are falsy).\<close>

definition strOr :: "string option \<Rightarrow> string \<Rightarrow> string" where
  "strOr s d = (case s of None \<Rightarrow> d | Some t \<Rightarrow> if t = [] then d else t)"

text \<open>
  Reading one of the properties \<open>description\<close>, \<open>priority\<close>,
  \<open>estimatedComplexity\<close> of a parsed entry: a \<open>TypeError\<close> on \<open>null\<close> and
  \<open>undefined\<close>, \<open>undefined\<close> on primitives and arrays (none of the three
  names is a built-in property), the stored value or \<open>undefined\<close> on objects.
\<close>

fun getProp :: "jsval \<Rightarrow> string \<Rightarrow> exn + jsval" where
  "getProp JUndefined k = Inl (JsError ''Cannot read properties of undefined'')"
| "getProp JNull k = Inl (JsError ''Cannot read properties of null'')"
| "getProp (JObj kvs) k = Inr (case map_of kvs k of Some v \<Rightarrow> v | None \<Rightarrow> JUndefined)"
| "getProp v k = Inr JUndefined"

text \<open>Decimal rendering of the integers the code interpolates into strings.\<close>

fun showNat :: "nat \<Rightarrow> string" where
  "showNat n =
     (if n < 10 then [''0123456789'' ! n]
      else showNat (n div 10) @ [''0123456789'' ! (n mod 10)])"

definition showInt :: "int \<Rightarrow> string" where
  "showInt i = (if i < 0 then ''-'' @ showNat (nat (- i)) else showNat (nat i))"

definition showBool :: "bool \<Rightarrow> string" where
  "showBool b = (if b then ''true'' else ''false'')"

text \<open>\<open>Array.prototype.join\<close> on strings.\<close>

fun join :: "string \<Rightarrow> string list \<Rightarrow> string" where
  "join sep [] = []"
| "join sep [x] = x"
| "join sep (x # y # ys) = x @ sep @ join sep (y # ys)"

record task =
  task_id :: string
  task_description :: string
  task_context :: "string option"
  task_complexity :: string
  task_priority :: int

record subAgentTask =
  st_id :: string
  st_description :: jsval
  st_priority :: jsval
  st_parentTaskId :: string
  st_complexity :: jsval
  st_context :: "string option"

record subAgentResult =
  r_taskId :: string
  r_success :: bool
  r_result :: string
  r_tokensUsed :: int
  r_cost :: real
  r_account :: accountId
  r_duration :: int
  r_error :: "string option"

record taskResult =
  tr_taskId :: string
  tr_success :: bool
  tr_result :: string
  tr_subResults :: "subAgentResult list"
  tr_tokensUsed :: int
  tr_cost :: real
  tr_duration :: int

datatype executionStrategy = Parallel | Sequential | Adaptive

record superAgentConfig =
  maxSubAgents :: int
  executionStrategy :: executionStrategy
  saveHistory :: bool

text \<open>The fields of a \<open>SuperAgent\<close> that never change after construction.\<close>

record superAgent =
  sa_id :: string
  sa_config :: superAgentConfig

section \<open>Collaborators and the world\<close>

text \<open>
  What the transport answers to one \<open>client.chat\<close> call: a rejection, or a
  response of which the code reads the message contents of \<open>choices\<close> (a content
  may be \<open>null\<close>) and \<open>usage?.total_tokens\<close>.
\<close>

datatype chatOutcome =
  ChatFails exn
  | ChatResponse "string option list" "int option"

text \<open>\<open>response.choices[0]?.message?.content\<close>\<close>

definition firstContent :: "string option list \<Rightarrow> string option" where
  "firstContent choices = (case choices of [] \<Rightarrow> None | c # cs \<Rightarrow> c)"

text \<open>\<open>response.usage?.total_tokens || 0\<close>\<close>

definition tokensOf :: "int option \<Rightarrow> int" where
  "tokensOf usage = (case usage of None \<Rightarrow> 0 | Some n \<Rightarrow> n)"

text \<open>
  The store, \<open>src/storage/database.ts\<close> (in the source tree its text follows
  \<open>docs/PRACTICAL_ROADMAP.md\<close>): an SQLite database reached through synchronous
  prepared statements.  A statement is kept with the parameters bound
  to it, in the order of \<open>stmt.run\<close>:

  \<open>SaveAgent id type parent_id account status task created_at\<close>
  (\<open>result\<close> and \<open>completed_at\<close> are \<open>null\<close>: no caller gives them),
  \<open>SaveConversation id super_agent_id sub_agent_id account role content timestamp
  tokens_used cost\<close> (\<open>metadata\<close> is \<open>null\<close>: no caller gives it),
  \<open>SaveDocument id conversation_id type title content format created_at tags\<close>,
  \<open>UpdateAgentStatus status result completed_at id\<close>.

  The \<open>task\<close> of an agent is the description of a sub-task as it came out of
  \<open>JSON.parse\<close>, a JavaScript value.
\<close>

datatype dbEvent =
  SaveAgent string string "string option" accountId string jsval int
  | SaveConversation string string "string option" accountId string string int
      "int option" "real option"
  | SaveDocument string string string string string string int "string option"
  | UpdateAgentStatus string "string option" "int option" string

text \<open>A request handed to the transport: the account whose client is used, the
  role-tagged messages and the model.\<close>

type_synonym request = "accountId \<times> (string \<times> string) list \<times> string"

text \<open>
  The environment: everything the engine does not decide.  \<open>uuidv4\<close> gives the
  \<open>k\<close>-th generated identifier, \<open>chat\<close> the outcome of the \<open>k\<close>-th request
  handed to the transport, \<open>JSON_parse\<close> and \<open>toString\<close> are the language's
  \<open>JSON.parse\<close> and the string conversion of a template literal (which can throw),
  \<open>elapse\<close> is the time that passes at the \<open>k\<close>-th suspension and \<open>pick\<close>
  picks which pending worker continues there.  \<open>dbFault\<close> is what the database
  engine throws at the \<open>k\<close>-th statement for a reason outside the statement and
  the rows stored: the file cannot be written, the database is locked or closed.
\<close>

record env =
  uuidv4 :: "nat \<Rightarrow> string"
  chat :: "nat \<Rightarrow> chatOutcome"
  JSON_parse :: "string \<Rightarrow> exn + jsval"
  toString :: "jsval \<Rightarrow> exn + string"
  elapse :: "nat \<Rightarrow> nat"
  pick :: "nat \<Rightarrow> nat"
  dbFault :: "nat \<Rightarrow> exn option"

text \<open>Started and finished calls of \<open>spawnSubAgent\<close>.\<close>

datatype agentEvent = Started subAgentTask | Finished subAgentTask

text \<open>
  The mutable state: the allocator, the statements the database has executed (its
  rows), how many statements were run, the requests sent, what \<open>console.error\<close>
  was given, the keys of the orchestrator's \<open>activeSubAgents\<close> map, the clock,
  and how many identifiers were generated and suspensions passed.
  \<open>history\<close> is a history variable: it records every \<open>activeSubAgents.set\<close>
  (a worker starts) and \<open>activeSubAgents.delete\<close> (it has finished), in order.
\<close>

record world =
  am :: accountManager
  db :: "dbEvent list"
  dbCalls :: nat
  sent :: "request list"
  console :: "exn list"
  activeSubAgents :: "string list"
  history :: "agentEvent list"
  clock :: int
  uuids :: nat
  suspensions :: nat

definition fresh :: "env \<Rightarrow> world \<Rightarrow> string \<times> world" where
  "fresh env w = (uuidv4 env (uuids w), w\<lparr>uuids := uuids w + 1\<rparr>)"

text \<open>An \<open>await\<close> on the transport or on a timer: time passes.\<close>

definition suspend :: "env \<Rightarrow> world \<Rightarrow> world" where
  "suspend env w =
     w\<lparr>clock := clock w + int (elapse env (suspensions w)),
       suspensions := suspensions w + 1\<rparr>"

section \<open>Store: \<open>src/storage/database.ts\<close>\<close>

text \<open>\<open>v || null\<close> on an optional parameter, \<open>falsy\<close> being the falsy value of its
  type (\<open>''\<close> or \<open>0\<close>).\<close>

definition orNull :: "'a \<Rightarrow> 'a option \<Rightarrow> 'a option" where
  "orNull falsy v = (case v of None \<Rightarrow> None | Some x \<Rightarrow> if x = falsy then None else Some x)"

text \<open>The identifiers (\<open>id TEXT PRIMARY KEY\<close>) of the rows of the tables
  \<open>agents\<close>, \<open>conversations\<close> and \<open>documents\<close>.\<close>

fun agentIds :: "dbEvent list \<Rightarrow> string list" where
  "agentIds [] = []"
| "agentIds (SaveAgent i ty parent a s agentTask c # rows) = i # agentIds rows"
| "agentIds (ev # rows) = agentIds rows"

fun conversationIds :: "dbEvent list \<Rightarrow> string list" where
  "conversationIds [] = []"
| "conversationIds (SaveConversation i s sub a r c t tk co # rows) = i # conversationIds rows"
| "conversationIds (ev # rows) = conversationIds rows"

fun documentIds :: "dbEvent list \<Rightarrow> string list" where
  "documentIds [] = []"
| "documentIds (SaveDocument i conversation_id ty title c f t tags # rows) = i # documentIds rows"
| "documentIds (ev # rows) = documentIds rows"

text \<open>
  What a statement violates, given the rows stored.  The driver binds numbers,
  strings and \<open>null\<close> and throws a \<open>TypeError\<close> on any other value; the one
  parameter that is not a string or a number by construction is the \<open>task\<close> of an
  agent, and its column is \<open>TEXT NOT NULL\<close>.  An inserted row needs an
  identifier that its table does not hold.  The \<open>conversation_id\<close> of a document
  is declared \<open>FOREIGN KEY (conversation_id) REFERENCES conversations(id)\<close>, which
  the driver enforces.  The other columns declared \<open>NOT NULL\<close> are given strings
  and numbers.  An update of no row is not an error.
\<close>

fun violation :: "dbEvent list \<Rightarrow> dbEvent \<Rightarrow> exn option" where
  "violation rows (SaveAgent i ty parent a s agentTask c) =
     (let unique = (if i \<in> set (agentIds rows)
                    then Some (JsError ''UNIQUE constraint failed: agents.id'') else None)
      in case agentTask of
           JStr x \<Rightarrow> unique
         | JNum x \<Rightarrow> unique
         | JNull \<Rightarrow> Some (JsError ''NOT NULL constraint failed: agents.task'')
         | _ \<Rightarrow> Some (JsError ''SQLite3 can only bind numbers, strings, bigints, buffers, and null''))"
| "violation rows (SaveConversation i s sub a r c t tk co) =
     (if i \<in> set (conversationIds rows)
      then Some (JsError ''UNIQUE constraint failed: conversations.id'') else None)"
| "violation rows (SaveDocument i conversation_id ty title c f t tags) =
     (if i \<in> set (documentIds rows)
      then Some (JsError ''UNIQUE constraint failed: documents.id'')
      else if conversation_id \<in> set (conversationIds rows) then None
      else Some (JsError ''FOREIGN KEY constraint failed''))"
| "violation rows (UpdateAgentStatus s r c i) = None"

text \<open>
  \<open>stmt.run\<close>: the statement throws when it violates a constraint or when the
  engine fails; otherwise it is executed.
\<close>

definition stmtRun :: "env \<Rightarrow> dbEvent \<Rightarrow> world \<Rightarrow> exn option \<times> world" where
  "stmtRun env stmt w =
     (let w1 = w\<lparr>dbCalls := dbCalls w + 1\<rparr>
      in case violation (db w) stmt of
           Some e \<Rightarrow> (Some e, w1)
         | None \<Rightarrow>
             (case dbFault env (dbCalls w) of
                Some e \<Rightarrow> (Some e, w1)
              | None \<Rightarrow> (None, w1\<lparr>db := db w @ [stmt]\<rparr>)))"

text \<open>The four methods the engine calls.  Each returns the value thrown, if any.\<close>

definition saveConversation :: "env \<Rightarrow> string \<Rightarrow> string \<Rightarrow> string option \<Rightarrow> accountId \<Rightarrow> string \<Rightarrow> string \<Rightarrow> int \<Rightarrow> int option \<Rightarrow> real option \<Rightarrow> world \<Rightarrow> exn option \<times> world" where
  "saveConversation env rid super_agent_id sub_agent_id account role content timestamp
       tokens_used cost w =
     stmtRun env
       (SaveConversation rid super_agent_id (orNull [] sub_agent_id) account role content
          timestamp (orNull 0 tokens_used) (orNull 0 cost)) w"

definition saveDocument :: "env \<Rightarrow> string \<Rightarrow> string \<Rightarrow> string \<Rightarrow> string \<Rightarrow> string \<Rightarrow> string \<Rightarrow> int \<Rightarrow> string option \<Rightarrow> world \<Rightarrow> exn option \<times> world" where
  "saveDocument env rid conversation_id type title content format created_at tags w =
     stmtRun env
       (SaveDocument rid conversation_id type title content format created_at
          (orNull [] tags)) w"

definition saveAgent :: "env \<Rightarrow> string \<Rightarrow> string \<Rightarrow> string option \<Rightarrow> accountId \<Rightarrow> string \<Rightarrow> jsval \<Rightarrow> int \<Rightarrow> world \<Rightarrow> exn option \<times> world" where
  "saveAgent env rid type parent_id account status agentTask created_at w =
     stmtRun env
       (SaveAgent rid type (orNull [] parent_id) account status agentTask created_at) w"

definition updateAgentStatus :: "env \<Rightarrow> string \<Rightarrow> string \<Rightarrow> string option \<Rightarrow> world \<Rightarrow> exn option \<times> world" where
  "updateAgentStatus env rid status result w =
     (let completedAt =
            (if status = ''completed'' \<or> status = ''failed'' then Some (clock w) else None)
      in stmtRun env (UpdateAgentStatus status (orNull [] result) completedAt rid) w)"

section \<open>Worker: \<open>src/orchestration/sub-agent.ts\<close>\<close>

definition selectModel :: "jsval \<Rightarrow> string" where
  "selectModel complexity =
     (if complexity = JStr ''simple'' then ''grok-code-fast-1''
      else if complexity = JStr ''medium'' then ''grok-3-fast''
      else if complexity = JStr ''complex'' then ''grok-4''
      else ''grok-3-fast'')"

text \<open>\<open>SubAgent.estimateCost\<close>: \<open>(tokens / 1000) * (costPerThousand[model] || 0.01)\<close>\<close>

definition costPerThousand :: "string \<Rightarrow> real" where
  "costPerThousand model =
     (if model = ''grok-code-fast-1'' then 5 / 1000
      else if model = ''grok-3-fast'' then 8 / 1000
      else if model = ''grok-4'' then 15 / 1000
      else 1 / 100)"

definition estimateCostSub :: "int \<Rightarrow> string \<Rightarrow> real" where
  "estimateCostSub tokens model = (real_of_int tokens / 1000) * costPerThousand model"

text \<open>
  The two prompts of a worker.  The task's fields are interpolated into template
  literals; the conversion of a field to a string is the environment's
  \<open>toString\<close>, the text around it is fixed.
\<close>

definition systemPromptText :: "string \<Rightarrow> string \<Rightarrow> string" where
  "systemPromptText priority complexity =
''You are a specialized sub-agent working on a specific task as part of a larger multi-agent system.

Your role:
- Focus on completing your specific assigned task thoroughly
- Provide detailed, actionable results
- Be precise and comprehensive
- Structure your response clearly with markdown
- If you encounter issues, explain them clearly

Task Priority: '' @ priority @ ''/5
Task Complexity: '' @ complexity"

definition getSystemPrompt :: "env \<Rightarrow> subAgentTask \<Rightarrow> exn + string" where
  "getSystemPrompt env t =
     (case toString env (st_priority t) of
        Inl e \<Rightarrow> Inl e
      | Inr priority \<Rightarrow>
          (case toString env (st_complexity t) of
             Inl e \<Rightarrow> Inl e
           | Inr complexity \<Rightarrow> Inr (systemPromptText priority complexity)))"

definition promptText :: "string \<Rightarrow> string option \<Rightarrow> string" where
  "promptText description ctx =
''TASK: '' @ description @ ''

'' @ (case ctx of
        None \<Rightarrow> []
      | Some c \<Rightarrow> if c = [] then [] else ''CONTEXT:
'' @ c @ ''

'') @ ''Please complete this task thoroughly and provide a detailed response.''"

definition buildPrompt :: "env \<Rightarrow> subAgentTask \<Rightarrow> exn + string" where
  "buildPrompt env t =
     (case toString env (st_description t) of
        Inl e \<Rightarrow> Inl e
      | Inr description \<Rightarrow> Inr (promptText description (st_context t)))"

text \<open>
  \<open>execute\<close> is an asynchronous function: it runs in segments, one from each
  suspension to the next.  A worker is the \<open>SubAgent\<close> object, the start time
  \<open>execute\<close> read, and where it is suspended: in the timer of
  \<open>waitForAvailability\<close> (with the time the timer was set), behind the
  \<open>await\<close> of \<open>waitForAvailability\<close> that has returned, in \<open>client.chat\<close>
  (with the account acquired and the number of the request), or settled with the
  outcome of its \<open>spawnSubAgent\<close> promise (\<open>Inl\<close>: rejected).
\<close>

datatype phase =
  Sleeping int
  | Resumable
  | InFlight accountId nat
  | Settled "exn + subAgentResult"

record worker =
  ag_id :: string
  ag_task :: subAgentTask
  ag_superAgentId :: string
  startTime :: int
  phase :: phase

text \<open>\<open>activeSubAgents.set(key, _)\<close> and \<open>activeSubAgents.delete(key)\<close> on the keys.\<close>

definition setKey :: "string \<Rightarrow> string list \<Rightarrow> string list" where
  "setKey k ks = (if k \<in> set ks then ks else ks @ [k])"

definition deleteKey :: "string \<Rightarrow> string list \<Rightarrow> string list" where
  "deleteKey k ks = removeAll k ks"

text \<open>
  The promise of \<open>execute\<close> settles; \<open>spawnSubAgent\<close> removes the worker from
  \<open>activeSubAgents\<close> and passes the outcome on (it rethrows a rejection).
\<close>

definition settle :: "worker \<Rightarrow> exn + subAgentResult \<Rightarrow> world \<Rightarrow> worker \<times> world" where
  "settle a outcome w =
     (a\<lparr>phase := Settled outcome\<rparr>,
      w\<lparr>activeSubAgents := deleteKey (st_id (ag_task a)) (activeSubAgents w),
        history := history w @ [Finished (ag_task a)]\<rparr>)"

text \<open>One evaluation of the loop condition of \<open>waitForAvailability\<close>.\<close>

definition poll :: "worker \<Rightarrow> world \<Rightarrow> worker \<times> world" where
  "poll a w =
     (case bothRateLimited (clock w) (am w) of
        (limited, m1) \<Rightarrow>
          (a\<lparr>phase := (if limited then Sleeping (clock w) else Resumable)\<rparr>,
           w\<lparr>am := m1\<rparr>))"

text \<open>
  The \<open>catch\<close> block of \<open>execute\<close>.  It records the failure first; when that
  statement throws, the exception leaves \<open>execute\<close> and the request is not
  completed.
\<close>

definition executeCatch :: "env \<Rightarrow> worker \<Rightarrow> accountId \<Rightarrow> exn \<Rightarrow> world \<Rightarrow> (exn + subAgentResult) \<times> world" where
  "executeCatch env a accountId error w =
     (let errorMsg = errorMessage error
      in case updateAgentStatus env (ag_id a) ''failed'' (Some errorMsg) w of
           (Some e, w1) \<Rightarrow> (Inl e, w1)
         | (None, w1) \<Rightarrow>
             (let w2 = w1\<lparr>am := completeRequest accountId 0 0 (am w1)\<rparr>
              in (Inr \<lparr>r_taskId = st_id (ag_task a), r_success = False, r_result = [],
                       r_tokensUsed = 0, r_cost = 0, r_account = accountId,
                       r_duration = clock w2 - startTime a, r_error = Some errorMsg\<rparr>,
                  w2)))"

text \<open>
  From the return of \<open>waitForAvailability\<close> to the call of \<open>client.chat\<close>:
  acquire an account and register the worker; an exception of \<open>saveAgent\<close> is
  thrown before the \<open>try\<close> block is entered, so it leaves \<open>execute\<close>.  Then,
  inside \<open>try\<close>: select the model, build the prompt, record it, build the system
  prompt and hand the request over.
\<close>

definition executeSend :: "env \<Rightarrow> worker \<Rightarrow> world \<Rightarrow> worker \<times> world" where
  "executeSend env a w =
     (case getClient None (clock w) (am w) of
        (accountId, m1) \<Rightarrow>
          (case saveAgent env (ag_id a) ''sub'' (Some (ag_superAgentId a)) accountId
                  ''active'' (st_description (ag_task a)) (clock w) (w\<lparr>am := m1\<rparr>) of
             (Some e, w1) \<Rightarrow> settle a (Inl e) w1
           | (None, w1) \<Rightarrow>
               (let model = selectModel (st_complexity (ag_task a))
                in case buildPrompt env (ag_task a) of
                     Inl error \<Rightarrow>
                       (case executeCatch env a accountId error w1 of
                          (out, w2) \<Rightarrow> settle a out w2)
                   | Inr prompt \<Rightarrow>
                       (case fresh env w1 of
                          (cid, w2) \<Rightarrow>
                            (case saveConversation env cid (ag_superAgentId a) (Some (ag_id a))
                                    accountId ''user'' prompt (clock w2) None None w2 of
                               (Some error, w3) \<Rightarrow>
                                 (case executeCatch env a accountId error w3 of
                                    (out, w4) \<Rightarrow> settle a out w4)
                             | (None, w3) \<Rightarrow>
                                 (case getSystemPrompt env (ag_task a) of
                                    Inl error \<Rightarrow>
                                      (case executeCatch env a accountId error w3 of
                                         (out, w4) \<Rightarrow> settle a out w4)
                                  | Inr systemPrompt \<Rightarrow>
                                      (a\<lparr>phase := InFlight accountId (length (sent w3))\<rparr>,
                                       w3\<lparr>sent := sent w3 @
                                            [(accountId,
                                              [(''system'', systemPrompt), (''user'', prompt)],
                                              model)]\<rparr>)))))))"

text \<open>
  From the settling of \<open>client.chat\<close> to the end of \<open>execute\<close>.  The request is
  completed before the response is recorded; an exception of the two statements
  that record it is caught by the \<open>catch\<close> block, which completes the request
  again.
\<close>

definition executeReceive :: "env \<Rightarrow> worker \<Rightarrow> accountId \<Rightarrow> nat \<Rightarrow> world \<Rightarrow> worker \<times> world" where
  "executeReceive env a accountId n w =
     (case chat env n of
        ChatFails error \<Rightarrow>
          (case executeCatch env a accountId error w of (out, w1) \<Rightarrow> settle a out w1)
      | ChatResponse choices usage \<Rightarrow>
          (let model = selectModel (st_complexity (ag_task a));
               result = strOr (firstContent choices) ''No response'';
               tokensUsed = tokensOf usage;
               cost = estimateCostSub tokensUsed model;
               w1 = w\<lparr>am := completeRequest accountId tokensUsed cost (am w)\<rparr>
           in case fresh env w1 of
                (cid, w2) \<Rightarrow>
                  (case saveConversation env cid (ag_superAgentId a) (Some (ag_id a))
                          accountId ''assistant'' result (clock w2)
                          (Some tokensUsed) (Some cost) w2 of
                     (Some error, w3) \<Rightarrow>
                       (case executeCatch env a accountId error w3 of
                          (out, w4) \<Rightarrow> settle a out w4)
                   | (None, w3) \<Rightarrow>
                       (case updateAgentStatus env (ag_id a) ''completed'' (Some result) w3 of
                          (Some error, w4) \<Rightarrow>
                            (case executeCatch env a accountId error w4 of
                               (out, w5) \<Rightarrow> settle a out w5)
                        | (None, w4) \<Rightarrow>
                            (let duration = clock w4 - startTime a
                             in settle a
                                  (Inr \<lparr>r_taskId = st_id (ag_task a), r_success = True,
                                        r_result = result, r_tokensUsed = tokensUsed,
                                        r_cost = cost, r_account = accountId,
                                        r_duration = duration, r_error = None\<rparr>)
                                  w4)))))"

text \<open>
  The next segment of a worker.  A sleeping worker continues when its timer fires,
  one second or more after it was set, and evaluates the loop condition again.
\<close>

definition workerStep :: "env \<Rightarrow> worker \<Rightarrow> world \<Rightarrow> worker \<times> world" where
  "workerStep env a w =
     (case phase a of
        Sleeping t \<Rightarrow> poll a (w\<lparr>clock := max (clock w) (t + 1000)\<rparr>)
      | Resumable \<Rightarrow> executeSend env a w
      | InFlight accountId n \<Rightarrow> executeReceive env a accountId n w
      | Settled out \<Rightarrow> (a, w))"

text \<open>
  \<open>spawnSubAgent\<close> up to its first suspension: construct the \<open>SubAgent\<close>, enter
  it in \<open>activeSubAgents\<close>, call \<open>execute\<close>, which reads the start time and
  evaluates the loop condition of \<open>waitForAvailability\<close> once.
\<close>

definition spawnSubAgent :: "env \<Rightarrow> superAgent \<Rightarrow> subAgentTask \<Rightarrow> world \<Rightarrow> worker \<times> world" where
  "spawnSubAgent env sa t w =
     (case fresh env w of
        (newId, w1) \<Rightarrow>
          poll \<lparr>ag_id = newId, ag_task = t, ag_superAgentId = sa_id sa,
                startTime = clock w1, phase = Resumable\<rparr>
            (w1\<lparr>activeSubAgents := setKey (st_id t) (activeSubAgents w1),
                history := history w1 @ [Started t]\<rparr>))"

text \<open>
  Workers run interleaved, one segment at a time.  At each suspension of the whole
  computation time passes and the environment picks which unsettled worker
  continues.  The run ends when every worker has settled, or at the first rejection
  (where a \<open>Promise.all\<close> or an \<open>await\<close> on the workers rejects; the workers
  still pending then go on after the caller has left, and are followed no further).
  It need not end: workers can wait for availability forever.
\<close>

definition isSettled :: "worker \<Rightarrow> bool" where
  "isSettled a = (case phase a of Settled out \<Rightarrow> True | _ \<Rightarrow> False)"

definition pending :: "worker list \<Rightarrow> nat list" where
  "pending agents = filter (\<lambda>i. \<not> isSettled (agents ! i)) [0..<length agents]"

fun rejection :: "worker list \<Rightarrow> exn option" where
  "rejection [] = None"
| "rejection (a # agents) =
     (case phase a of Settled (Inl e) \<Rightarrow> Some e | _ \<Rightarrow> rejection agents)"

fun outcomes :: "worker list \<Rightarrow> subAgentResult list" where
  "outcomes [] = []"
| "outcomes (a # agents) =
     (case phase a of Settled (Inr r) \<Rightarrow> r # outcomes agents | _ \<Rightarrow> outcomes agents)"

partial_function (option) runWorkers :: "env \<Rightarrow> worker list \<Rightarrow> world \<Rightarrow> (worker list \<times> world) option" where
  "runWorkers env agents w =
     (if rejection agents \<noteq> None \<or> pending agents = [] then Some (agents, w)
      else (let w1 = suspend env w;
                i = pending agents ! (pick env (suspensions w) mod length (pending agents))
            in case workerStep env (agents ! i) w1 of
                 (a', w2) \<Rightarrow> runWorkers env (agents[i := a']) w2))"

text \<open>What awaiting the workers yields: the first rejection, or all results in the
  order of the workers.\<close>

definition collect :: "worker list \<Rightarrow> exn + subAgentResult list" where
  "collect agents =
     (case rejection agents of Some e \<Rightarrow> Inl e | None \<Rightarrow> Inr (outcomes agents))"

text \<open>
  One worker on its own: \<open>spawnSubAgent\<close> constructs the \<open>SubAgent\<close> and calls
  its \<open>execute\<close>, which runs from call to return with no other worker in between.
  The list holds the one result.
\<close>

definition execute :: "env \<Rightarrow> superAgent \<Rightarrow> subAgentTask \<Rightarrow> world \<Rightarrow> ((exn + subAgentResult list) \<times> world) option" where
  "execute env sa t w =
     (case spawnSubAgent env sa t w of
        (a, w1) \<Rightarrow>
          (case runWorkers env [a] w1 of
             None \<Rightarrow> None
           | Some (agents, w2) \<Rightarrow> Some (collect agents, w2)))"

section \<open>Orchestrator: \<open>src/orchestration/super-agent.ts\<close>\<close>

text \<open>The constructor: generate the identifier and register the orchestrator.\<close>

definition newSuperAgent :: "env \<Rightarrow> superAgentConfig \<Rightarrow> world \<Rightarrow> (exn + superAgent) \<times> world" where
  "newSuperAgent env cfg w =
     (case fresh env w of
        (newId, w1) \<Rightarrow>
          (case saveAgent env newId ''super'' None Account1 ''active''
                  (JStr ''Orchestrate multi-agent tasks'') (clock w1) w1 of
             (Some e, w2) \<Rightarrow> (Inl e, w2)
           | (None, w2) \<Rightarrow> (Inr \<lparr>sa_id = newId, sa_config = cfg\<rparr>, w2)))"

text \<open>\<open>SuperAgent.estimateCost\<close>: \<open>(tokens / 1000) * 0.01\<close>\<close>

definition estimateCost :: "int \<Rightarrow> real" where
  "estimateCost tokens = (real_of_int tokens / 1000) * (1 / 100)"

definition decompositionPrompt :: "task \<Rightarrow> string" where
  \<open>decompositionPrompt t =
''You are a task decomposition expert. Break down the following task into 3-5 smaller, actionable sub-tasks.

TASK: '' @ task_description t @ ''

'' @ (case task_context t of
        None \<Rightarrow> []
      | Some c \<Rightarrow> if c = [] then [] else ''CONTEXT: '' @ c) @ ''

COMPLEXITY: '' @ task_complexity t @ ''

Provide a JSON array of sub-tasks with this format:
[
  {
    "description": "Sub-task description",
    "priority": 1-5,
    "estimatedComplexity": "simple|medium|complex",
    "dependencies": []
  }
]

Only return the JSON array, no other text.''\<close>

text \<open>
  The callback of \<open>subTasksData.map\<close>, entry by entry with its index: a fresh
  identifier, then the three property reads (which throw on a \<open>null\<close> entry).
\<close>

fun mapSubTasks :: "env \<Rightarrow> task \<Rightarrow> nat \<Rightarrow> jsval list \<Rightarrow> world \<Rightarrow> (exn + subAgentTask list) \<times> world" where
  "mapSubTasks env t index [] w = (Inr [], w)"
| "mapSubTasks env t index (st # rest) w =
     (case fresh env w of
        (newId, w1) \<Rightarrow>
          (case getProp st ''description'' of
             Inl e \<Rightarrow> (Inl e, w1)
           | Inr description \<Rightarrow>
               (case getProp st ''priority'' of
                  Inl e \<Rightarrow> (Inl e, w1)
                | Inr priority \<Rightarrow>
                    (case getProp st ''estimatedComplexity'' of
                       Inl e \<Rightarrow> (Inl e, w1)
                     | Inr estimatedComplexity \<Rightarrow>
                         (case mapSubTasks env t (index + 1) rest w1 of
                            (Inl e, w2) \<Rightarrow> (Inl e, w2)
                          | (Inr subs, w2) \<Rightarrow>
                              (Inr (\<lparr>st_id = newId,
                                     st_description = description,
                                     st_priority = orElse priority (JNum (real (index + 1))),
                                     st_parentTaskId = task_id t,
                                     st_complexity = orElse estimatedComplexity (JStr ''medium''),
                                     st_context = None\<rparr> # subs), w2))))))"

text \<open>The \<open>try\<close> block of \<open>decomposeTask\<close>, from the settling of \<open>client.chat\<close>.\<close>

definition decomposeTry :: "env \<Rightarrow> task \<Rightarrow> accountId \<Rightarrow> chatOutcome \<Rightarrow> world \<Rightarrow> (exn + subAgentTask list) \<times> world" where
  "decomposeTry env t accountId outcome w =
     (case outcome of
        ChatFails error \<Rightarrow> (Inl error, w)
      | ChatResponse choices usage \<Rightarrow>
          (let tokensUsed = tokensOf usage;
               cost = estimateCost tokensUsed;
               w1 = w\<lparr>am := completeRequest accountId tokensUsed cost (am w)\<rparr>;
               content = strOr (firstContent choices) ''[]''
           in case JSON_parse env content of
                Inl error \<Rightarrow> (Inl error, w1)
              | Inr subTasksData \<Rightarrow>
                  (case subTasksData of
                     JArr entries \<Rightarrow> mapSubTasks env t 0 entries w1
                   | JNull \<Rightarrow> (Inl (JsError ''Cannot read properties of null''), w1)
                   | _ \<Rightarrow> (Inl (JsError ''subTasksData.map is not a function''), w1))))"

text \<open>The \<open>catch\<close> block of \<open>decomposeTask\<close>: the single fallback sub-task.\<close>

definition decomposeCatch :: "env \<Rightarrow> task \<Rightarrow> exn \<Rightarrow> world \<Rightarrow> (exn + subAgentTask list) \<times> world" where
  "decomposeCatch env t error w =
     (case fresh env (w\<lparr>console := console w @ [error]\<rparr>) of
        (newId, w1) \<Rightarrow>
          (Inr [\<lparr>st_id = newId,
                 st_description = JStr (task_description t),
                 st_priority = JNum 1,
                 st_parentTaskId = task_id t,
                 st_complexity = JStr (task_complexity t),
                 st_context = None\<rparr>], w1))"

definition decomposeTask :: "env \<Rightarrow> superAgent \<Rightarrow> task \<Rightarrow> world \<Rightarrow> (exn + subAgentTask list) \<times> world" where
  "decomposeTask env sa t w =
     (case getClient None (clock w) (am w) of
        (accountId, m1) \<Rightarrow>
          (let w1 = w\<lparr>am := m1,
                     sent := sent w @
                       [(accountId,
                         [(''system'', ''You are a task decomposition expert. Output only valid JSON.''),
                          (''user'', decompositionPrompt t)],
                         ''grok-3-fast'')]\<rparr>;
               outcome = chat env (length (sent w));
               w2 = suspend env w1
           in case decomposeTry env t accountId outcome w2 of
                (Inr subTasks, w3) \<Rightarrow> (Inr subTasks, w3)
              | (Inl error, w3) \<Rightarrow> decomposeCatch env t error w3))"

text \<open>The three execution strategies.\<close>

fun spawnAll :: "env \<Rightarrow> superAgent \<Rightarrow> subAgentTask list \<Rightarrow> world \<Rightarrow> worker list \<times> world" where
  "spawnAll env sa [] w = ([], w)"
| "spawnAll env sa (t # ts) w =
     (case spawnSubAgent env sa t w of
        (a, w1) \<Rightarrow> (case spawnAll env sa ts w1 of (agents, w2) \<Rightarrow> (a # agents, w2)))"

definition executeParallel :: "env \<Rightarrow> superAgent \<Rightarrow> subAgentTask list \<Rightarrow> world \<Rightarrow> ((exn + subAgentResult list) \<times> world) option" where
  "executeParallel env sa subTasks w =
     (case spawnAll env sa subTasks w of
        (agents, w1) \<Rightarrow>
          (case runWorkers env agents w1 of
             None \<Rightarrow> None
           | Some (agents', w2) \<Rightarrow> Some (collect agents', w2)))"

fun executeSequential :: "env \<Rightarrow> superAgent \<Rightarrow> subAgentTask list \<Rightarrow> world \<Rightarrow> ((exn + subAgentResult list) \<times> world) option" where
  "executeSequential env sa [] w = Some (Inr [], w)"
| "executeSequential env sa (subTask # rest) w =
     (case execute env sa subTask w of
        None \<Rightarrow> None
      | Some (Inl e, w1) \<Rightarrow> Some (Inl e, w1)
      | Some (Inr result, w1) \<Rightarrow>
          (case executeSequential env sa rest w1 of
             None \<Rightarrow> None
           | Some (Inl e, w2) \<Rightarrow> Some (Inl e, w2)
           | Some (Inr results, w2) \<Rightarrow> Some (Inr (result @ results), w2)))"

definition executeAdaptive :: "env \<Rightarrow> superAgent \<Rightarrow> subAgentTask list \<Rightarrow> world \<Rightarrow> ((exn + subAgentResult list) \<times> world) option" where
  "executeAdaptive env sa subTasks w =
     (let simpleTask = filter (\<lambda>t. st_complexity t = JStr ''simple'') subTasks;
          complexTasks = filter (\<lambda>t. st_complexity t \<noteq> JStr ''simple'') subTasks
      in case executeParallel env sa simpleTask w of
           None \<Rightarrow> None
         | Some (Inl e, w1) \<Rightarrow> Some (Inl e, w1)
         | Some (Inr simpleResults, w1) \<Rightarrow>
             (case executeSequential env sa complexTasks w1 of
                None \<Rightarrow> None
              | Some (Inl e, w2) \<Rightarrow> Some (Inl e, w2)
              | Some (Inr complexResults, w2) \<Rightarrow>
                  Some (Inr (simpleResults @ complexResults), w2)))"

definition executeByStrategy :: "env \<Rightarrow> superAgent \<Rightarrow> subAgentTask list \<Rightarrow> world \<Rightarrow> ((exn + subAgentResult list) \<times> world) option" where
  "executeByStrategy env sa subTasks w =
     (case executionStrategy (sa_config sa) of
        Parallel \<Rightarrow> executeParallel env sa subTasks w
      | Sequential \<Rightarrow> executeSequential env sa subTasks w
      | Adaptive \<Rightarrow> executeAdaptive env sa subTasks w)"

text \<open>The labelled block of one worker result, and all blocks joined.\<close>

definition subResultBlock :: "nat \<Rightarrow> subAgentResult \<Rightarrow> string" where
  "subResultBlock i r = ''
### Sub-Task '' @ showNat (i + 1) @ ''
**Task:** '' @ r_taskId r @ ''
**Success:** '' @ showBool (r_success r) @ ''
**Result:**
'' @ r_result r @ ''
    ''"

definition subResultsText :: "subAgentResult list \<Rightarrow> string" where
  "subResultsText subResults =
     join ''

'' (map (\<lambda>(i, r). subResultBlock i r) (zip [0..<length subResults] subResults))"

definition aggregationPrompt :: "task \<Rightarrow> string \<Rightarrow> string" where
  "aggregationPrompt originalTask text =
''You are a synthesis expert. Combine the following sub-task results into a comprehensive, cohesive response to the original task.

ORIGINAL TASK: '' @ task_description originalTask @ ''

SUB-TASK RESULTS:
'' @ text @ ''

Provide a well-structured, comprehensive response that:
1. Addresses the original task completely
2. Integrates all sub-task findings
3. Highlights key insights
4. Provides actionable recommendations if applicable

Format your response in clear, professional markdown.''"

definition aggregateResults :: "env \<Rightarrow> superAgent \<Rightarrow> task \<Rightarrow> subAgentResult list \<Rightarrow> world \<Rightarrow> (exn + string) \<times> world" where
  "aggregateResults env sa originalTask subResults w =
     (case getClient None (clock w) (am w) of
        (accountId, m1) \<Rightarrow>
          (let text = subResultsText subResults;
               w1 = w\<lparr>am := m1,
                     sent := sent w @
                       [(accountId,
                         [(''system'', ''You are a synthesis expert who combines multiple analysis results into cohesive insights.''),
                          (''user'', aggregationPrompt originalTask text)],
                         ''grok-4'')]\<rparr>;
               outcome = chat env (length (sent w));
               w2 = suspend env w1
           in case outcome of
                ChatResponse choices usage \<Rightarrow>
                  (let tokensUsed = tokensOf usage;
                       cost = estimateCost tokensUsed
                   in (Inr (strOr (firstContent choices) ''Failed to aggregate results''),
                       w2\<lparr>am := completeRequest accountId tokensUsed cost (am w2)\<rparr>))
              | ChatFails error \<Rightarrow>
                  (Inr text, w2\<lparr>console := console w2 @ [error]\<rparr>)))"

text \<open>The statements of \<open>executeTask\<close>: the initial task, and the final
  result, its document and the status of the orchestrator.  Each returns the value
  thrown, if any; a statement that throws ends the \<open>try\<close> block.\<close>

definition saveTask :: "env \<Rightarrow> superAgent \<Rightarrow> task \<Rightarrow> world \<Rightarrow> exn option \<times> world" where
  "saveTask env sa t w =
     (if saveHistory (sa_config sa)
      then (case fresh env w of
              (cid, w1) \<Rightarrow>
                saveConversation env cid (sa_id sa) None Account1 ''user''
                  (''Task: '' @ task_description t) (clock w1) None None w1)
      else (None, w))"

definition saveFinalResult :: "env \<Rightarrow> superAgent \<Rightarrow> task \<Rightarrow> string \<Rightarrow> int \<Rightarrow> real \<Rightarrow> world \<Rightarrow> exn option \<times> world" where
  "saveFinalResult env sa t finalResult tokens cost w =
     (case (if saveHistory (sa_config sa)
            then (case fresh env w of
                    (cid, w1) \<Rightarrow>
                      (case saveConversation env cid (sa_id sa) None Account1
                              ''assistant'' finalResult (clock w1)
                              (Some tokens) (Some cost) w1 of
                         (Some e, w2) \<Rightarrow> (Some e, w2)
                       | (None, w2) \<Rightarrow>
                           (case fresh env w2 of
                              (did, w3) \<Rightarrow>
                                saveDocument env did (task_id t) ''analysis''
                                  (''Task Result: '' @ take 50 (task_description t) @ ''...'')
                                  finalResult ''markdown'' (clock w3)
                                  (Some (''complexity:'' @ task_complexity t @
                                         '',priority:'' @ showInt (task_priority t))) w3)))
            else (None, w)) of
        (Some e, w4) \<Rightarrow> (Some e, w4)
      | (None, w4) \<Rightarrow> updateAgentStatus env (sa_id sa) ''completed'' (Some finalResult) w4)"

text \<open>The \<open>try\<close> block of \<open>executeTask\<close>.\<close>

definition executeTaskTry :: "env \<Rightarrow> superAgent \<Rightarrow> task \<Rightarrow> int \<Rightarrow> world \<Rightarrow> ((exn + taskResult) \<times> world) option" where
  "executeTaskTry env sa t start w =
     (case saveTask env sa t w of
        (Some e, w1) \<Rightarrow> Some (Inl e, w1)
      | (None, w1) \<Rightarrow>
          (case decomposeTask env sa t w1 of
             (Inl e, w2) \<Rightarrow> Some (Inl e, w2)
           | (Inr subTasks, w2) \<Rightarrow>
               (case executeByStrategy env sa subTasks w2 of
                  None \<Rightarrow> None
                | Some (Inl e, w3) \<Rightarrow> Some (Inl e, w3)
                | Some (Inr subResults, w3) \<Rightarrow>
                    (case aggregateResults env sa t subResults w3 of
                       (Inl e, w4) \<Rightarrow> Some (Inl e, w4)
                     | (Inr finalResult, w4) \<Rightarrow>
                         (let totalTokens = foldl (\<lambda>sum r. sum + r_tokensUsed r) 0 subResults;
                              totalCost = foldl (\<lambda>sum r. sum + r_cost r) 0 subResults;
                              duration = clock w4 - start
                          in case saveFinalResult env sa t finalResult totalTokens totalCost w4 of
                               (Some e, w5) \<Rightarrow> Some (Inl e, w5)
                             | (None, w5) \<Rightarrow>
                                 Some (Inr \<lparr>tr_taskId = task_id t, tr_success = True,
                                            tr_result = finalResult,
                                            tr_subResults = subResults,
                                            tr_tokensUsed = totalTokens,
                                            tr_cost = totalCost,
                                            tr_duration = duration\<rparr>, w5))))))"

text \<open>
  The \<open>catch\<close> block of \<open>executeTask\<close>.  It records the failure first; when that
  statement throws, the exception leaves \<open>executeTask\<close>.
\<close>

definition executeTaskCatch :: "env \<Rightarrow> superAgent \<Rightarrow> task \<Rightarrow> int \<Rightarrow> exn \<Rightarrow> world \<Rightarrow> (exn + taskResult) \<times> world" where
  "executeTaskCatch env sa t start error w =
     (let errorMsg = errorMessage error
      in case updateAgentStatus env (sa_id sa) ''failed'' (Some errorMsg) w of
           (Some e, w1) \<Rightarrow> (Inl e, w1)
         | (None, w1) \<Rightarrow>
             (Inr \<lparr>tr_taskId = task_id t, tr_success = False, tr_result = errorMsg,
                   tr_subResults = [], tr_tokensUsed = 0, tr_cost = 0,
                   tr_duration = clock w1 - start\<rparr>, w1))"

definition executeTask :: "env \<Rightarrow> superAgent \<Rightarrow> task \<Rightarrow> world \<Rightarrow> ((exn + taskResult) \<times> world) option" where
  "executeTask env sa t w =
     (let start = clock w
      in case executeTaskTry env sa t start w of
           None \<Rightarrow> None
         | Some (Inr result, w1) \<Rightarrow> Some (Inr result, w1)
         | Some (Inl error, w1) \<Rightarrow> Some (executeTaskCatch env sa t start error w1))"

section \<open>Conditions and concrete runs used below\<close>

text \<open>
  When \<open>decomposeTask\<close> ends in its \<open>catch\<close> block: the call to the transport
  rejects, \<open>JSON.parse\<close> throws, the parsed value is not an array, or an entry of
  the array is \<open>null\<close>.
\<close>

definition decompositionFails :: "env \<Rightarrow> chatOutcome \<Rightarrow> bool" where
  "decompositionFails env outcome =
     (case outcome of
        ChatFails error \<Rightarrow> True
      | ChatResponse choices usage \<Rightarrow>
          (case JSON_parse env (strOr (firstContent choices) ''[]'') of
             Inl error \<Rightarrow> True
           | Inr (JArr entries) \<Rightarrow> list_ex (\<lambda>x. x = JNull \<or> x = JUndefined) entries
           | Inr v \<Rightarrow> True))"

definition fallbackSubTask :: "string \<Rightarrow> task \<Rightarrow> subAgentTask" where
  "fallbackSubTask newId t =
     \<lparr>st_id = newId, st_description = JStr (task_description t), st_priority = JNum 1,
      st_parentTaskId = task_id t, st_complexity = JStr (task_complexity t),
      st_context = None\<rparr>"

text \<open>The invariant behind the non-negativity of the in-flight counters.\<close>

definition nonneg :: "accountManager \<Rightarrow> bool" where
  "nonneg m \<longleftrightarrow> (\<forall>a. 0 \<le> activeRequests (stats (accounts m a)))"

text \<open>
  Predicates used in the proofs about workers.  \<open>stepSpec\<close>: what one segment of an
  unsettled worker does to the worker and to the history.  \<open>sound\<close>: a result the
  worker settled with carries the identifier of its sub-task.  \<open>runSpec\<close>: what a
  run of workers that has ended guarantees.
  \<open>neverAvailable\<close>: both accounts have a requests-per-minute limit of zero or less,
  so that both are rate-limited at every time.
\<close>

definition stepSpec :: "worker \<Rightarrow> world \<Rightarrow> worker \<Rightarrow> world \<Rightarrow> bool" where
  "stepSpec a w a' w' \<longleftrightarrow>
     (\<exists>p. a' = a\<lparr>phase := p\<rparr>
          \<and> (\<forall>r. p = Settled (Inr r) \<longrightarrow> r_taskId r = st_id (ag_task a))
          \<and> history w' = history w @ (if isSettled a' then [Finished (ag_task a)] else []))"

definition sound :: "worker \<Rightarrow> bool" where
  "sound a \<longleftrightarrow> (\<forall>r. phase a = Settled (Inr r) \<longrightarrow> r_taskId r = st_id (ag_task a))"

definition runSpec :: "worker list \<Rightarrow> world \<Rightarrow> worker list \<times> world \<Rightarrow> bool" where
  "runSpec agents w y \<longleftrightarrow>
     (\<forall>a\<in>set (fst y). sound a) \<and> map ag_task (fst y) = map ag_task agents
     \<and> (rejection (fst y) \<noteq> None \<or> pending (fst y) = [])
     \<and> (\<exists>h. history (snd y) = history w @ h
            \<and> set h \<subseteq> Finished ` set (map ag_task agents)
            \<and> (\<forall>j<length agents. \<not> isSettled (agents ! j) \<and> isSettled (fst y ! j) \<longrightarrow>
                  Finished (ag_task (agents ! j)) \<in> set h))"

text \<open>\<open>unchanged\<close>: the second world differs from the first in the database only.\<close>

definition unchanged :: "world \<Rightarrow> world \<Rightarrow> bool" where
  "unchanged w w' \<longleftrightarrow> w' = w\<lparr>db := db w', dbCalls := dbCalls w'\<rparr>"


text \<open>
  For the termination of a run of workers.  \<open>sameConfig\<close>: the accounts have the
  same configuration in both worlds.  \<open>horizon\<close>: the time by which every recorded
  request of an account has left the window.  \<open>progress\<close>: a pair that decreases
  lexicographically with every segment of a worker when the account has a positive
  limit: the number of workers that have not sent their request, and a rank of the
  workers in which a sleeping worker weighs the time from its last poll to the
  horizon.
\<close>

definition sameConfig :: "world \<Rightarrow> world \<Rightarrow> bool" where
  "sameConfig w w' \<longleftrightarrow> (\<forall>c. config (accounts (am w') c) = config (accounts (am w) c))"

definition horizon :: "accountId \<Rightarrow> accountManager \<Rightarrow> int" where
  "horizon k m = foldr max (requestTimestamps (accounts m k)) 0 + 60000"

definition unsent :: "worker \<Rightarrow> nat" where
  "unsent a = (case phase a of Sleeping t \<Rightarrow> 1 | Resumable \<Rightarrow> 1 | _ \<Rightarrow> 0)"

definition rank :: "int \<Rightarrow> worker \<Rightarrow> nat" where
  "rank h a =
     (case phase a of
        Settled out \<Rightarrow> 0
      | InFlight k n \<Rightarrow> 1
      | Resumable \<Rightarrow> 1
      | Sleeping t \<Rightarrow> 2 + nat (h - t))"

definition progress :: "accountId \<Rightarrow> worker list \<times> world \<Rightarrow> nat \<times> nat" where
  "progress k x =
     (sum_list (map unsent (fst x)), sum_list (map (rank (horizon k (am (snd x)))) (fst x)))"

text \<open>
  An environment for concrete runs.  Identifiers are \<open>id0\<close>, \<open>id1\<close>, ...; a
  suspension takes 5 ms; the database engine does not fail.  Of two workers started
  together after the first suspension (the decomposition), the first continues first
  and sends its request, then the second sends its request, and the response to the
  second arrives before the response to the first.  \<open>JSON.parse\<close> and the string
  conversion are given on the texts and values of the runs: the parser knows the
  empty array, one array of three entries and one array of an entry without
  description, and rejects everything else.
\<close>

definition threeEntries :: string where
  \<open>threeEntries = ''[{"description":"a","estimatedComplexity":"simple"},{"description":"b"},{"description":"c","estimatedComplexity":"simple"}]''\<close>

definition noDescription :: string where
  \<open>noDescription = ''[{"priority":1}]''\<close>

definition exampleParse :: "string \<Rightarrow> exn + jsval" where
  "exampleParse s =
     (if s = ''[]'' then Inr (JArr [])
      else if s = noDescription then Inr (JArr [JObj [(''priority'', JNum 1)]])
      else if s = threeEntries
      then Inr (JArr [JObj [(''description'', JStr ''a''), (''estimatedComplexity'', JStr ''simple'')],
                      JObj [(''description'', JStr ''b'')],
                      JObj [(''description'', JStr ''c''), (''estimatedComplexity'', JStr ''simple'')]])
      else Inl (JsError ''Unexpected token''))"

fun exampleToString :: "jsval \<Rightarrow> exn + string" where
  "exampleToString (JStr s) = Inr s"
| "exampleToString (JNum x) = Inr (showInt \<lfloor>x\<rfloor>)"
| "exampleToString (JBool b) = Inr (showBool b)"
| "exampleToString JNull = Inr ''null''"
| "exampleToString JUndefined = Inr ''undefined''"
| "exampleToString (JArr xs) = Inr []"
| "exampleToString (JObj kvs) = Inr ''[object Object]''"

definition exampleEnv :: "(nat \<Rightarrow> chatOutcome) \<Rightarrow> env" where
  "exampleEnv answers =
     \<lparr>uuidv4 = (\<lambda>k. ''id'' @ showNat k), chat = answers, JSON_parse = exampleParse,
      toString = exampleToString, elapse = (\<lambda>k. 5),
      pick = (\<lambda>k. if k = 1 then 0 else 1), dbFault = (\<lambda>k. None)\<rparr>"

text \<open>The transport rejects every request.\<close>

definition failingEnv :: env where
  "failingEnv = exampleEnv (\<lambda>k. ChatFails (JsError ''timeout''))"

text \<open>The transport answers the first request (the decomposition) with the array of
  three entries and 120 tokens, and request \<open>k\<close> after it with a text and
  \<open>100 * k\<close> tokens.\<close>

definition answeringEnv :: env where
  "answeringEnv =
     exampleEnv (\<lambda>k. if k = 0 then ChatResponse [Some threeEntries] (Some 120)
                      else ChatResponse [Some ''done''] (Some (100 * int k)))"

text \<open>The transport answers every request with an array of one entry that has a
  priority and no description.\<close>

definition undescribingEnv :: env where
  "undescribingEnv = exampleEnv (\<lambda>k. ChatResponse [Some noDescription] (Some 120))"

text \<open>The transport answers the decomposition and the three workers as in
  \<open>answeringEnv\<close> and rejects the synthesis request.\<close>

definition synthesisFailingEnv :: env where
  "synthesisFailingEnv =
     exampleEnv (\<lambda>k. if k = 0 then ChatResponse [Some threeEntries] (Some 120)
                      else if k \<le> 3 then ChatResponse [Some ''done''] (Some (100 * int k))
                      else ChatFails (JsError ''timeout''))"

text \<open>The transport rejects every request and the database engine fails at every
  statement.\<close>

definition brokenDbEnv :: env where
  "brokenDbEnv = failingEnv\<lparr>dbFault := (\<lambda>k. Some (JsError ''disk I/O error''))\<rparr>"

definition exampleAccount :: "int \<Rightarrow> accountConfig" where
  "exampleAccount limit =
     \<lparr>apiKey = ''key'', baseURL = None, name = ''Primary'', maxConcurrent = 10,
      rateLimit = limit\<rparr>"

text \<open>The world right after construction of the allocator with the given
  requests-per-minute limit on both accounts, at clock value 1000.\<close>

definition exampleWorld :: "int \<Rightarrow> world" where
  "exampleWorld limit =
     \<lparr>am = newAccountManager (exampleAccount limit) (exampleAccount limit) LeastLoaded,
      db = [], dbCalls = 0, sent = [], console = [], activeSubAgents = [], history = [],
      clock = 1000, uuids = 0, suspensions = 0\<rparr>"

definition exampleTask :: task where
  "exampleTask =
     \<lparr>task_id = ''task-1'', task_description = ''Summarize module X and list risks'',
      task_context = None, task_complexity = ''medium'', task_priority = 3\<rparr>"

definition exampleSuperAgent :: "int \<Rightarrow> executionStrategy \<Rightarrow> superAgent" where
  "exampleSuperAgent bound strat =
     \<lparr>sa_id = ''super'',
      sa_config = \<lparr>maxSubAgents = bound, executionStrategy = strat, saveHistory = False\<rparr>\<rparr>"

definition exampleSubTask :: "string \<Rightarrow> string \<Rightarrow> subAgentTask" where
  "exampleSubTask i c =
     \<lparr>st_id = i, st_description = JStr ''work'', st_priority = JNum 1,
      st_parentTaskId = ''task-1'', st_complexity = JStr c, st_context = None\<rparr>"



definition threeSubTasks :: "subAgentTask list" where
  "threeSubTasks =
     [\<lparr>st_id = ''id0'', st_description = JStr ''a'', st_priority = JNum 1,
       st_parentTaskId = ''task-1'', st_complexity = JStr ''simple'', st_context = None\<rparr>,
      \<lparr>st_id = ''id1'', st_description = JStr ''b'', st_priority = JNum 2,
       st_parentTaskId = ''task-1'', st_complexity = JStr ''medium'', st_context = None\<rparr>,
      \<lparr>st_id = ''id2'', st_description = JStr ''c'', st_priority = JNum 3,
       st_parentTaskId = ''task-1'', st_complexity = JStr ''simple'', st_context = None\<rparr>]"

definition afterDecomposition :: world where
  "afterDecomposition =
     snd (decomposeTask answeringEnv (exampleSuperAgent 5 Adaptive) exampleTask
            (exampleWorld 60))"


text \<open>The results of the three workers of the answered run, in the order returned.\<close>

definition threeResults :: "subAgentResult list" where
  "threeResults =
     [\<lparr>r_taskId = ''id0'', r_success = True, r_result = ''done'', r_tokensUsed = 100,
       r_cost = 1 / 2000, r_account = Account1, r_duration = 20, r_error = None\<rparr>,
      \<lparr>r_taskId = ''id2'', r_success = True, r_result = ''done'', r_tokensUsed = 200,
       r_cost = 1 / 1000, r_account = Account2, r_duration = 15, r_error = None\<rparr>,
      \<lparr>r_taskId = ''id1'', r_success = True, r_result = ''done'', r_tokensUsed = 300,
       r_cost = 3 / 1250, r_account = Account1, r_duration = 10, r_error = None\<rparr>]"


text \<open>The sub-task that decomposition yields from the entry without description,
  and the world in which it leaves the worker.\<close>

definition undescribedSubTask :: subAgentTask where
  "undescribedSubTask =
     \<lparr>st_id = ''id0'', st_description = JUndefined, st_priority = JNum 1,
      st_parentTaskId = ''task-1'', st_complexity = JStr ''medium'', st_context = None\<rparr>"

definition afterUndescribedDecomposition :: world where
  "afterUndescribedDecomposition =
     snd (decomposeTask undescribingEnv (exampleSuperAgent 5 Adaptive) exampleTask
            (exampleWorld 60))"
section \<open>Properties of the resource allocator\<close>

lemma accounts_setAccount [simp]:
  "accounts (setAccount k a m) = (accounts m)(k := a)"
  "strategy (setAccount k a m) = strategy m"
  "currentAccountIndex (setAccount k a m) = currentAccountIndex m"
  by (simp_all add: setAccount_def)

lemma isRateLimited_fst:
  "fst (isRateLimited a now m) \<longleftrightarrow>
     rateLimit (config (accounts m a)) \<le> int (requestsInWindow now (requestTimestamps (accounts m a)))"
proof -
  have "(\<lambda>ts. now - 60000 < ts) = (\<lambda>ts. now - ts < 60000)" by (rule ext) arith
  then show ?thesis by (simp add: isRateLimited_def Let_def requestsInWindow_def)
qed

lemma isRateLimited_snd:
  "accounts (snd (isRateLimited a now m)) =
     (accounts m)(a := (accounts m a)\<lparr>requestTimestamps :=
        filter (\<lambda>ts. now - ts < 60000) (requestTimestamps (accounts m a))\<rparr>)"
  "strategy (snd (isRateLimited a now m)) = strategy m"
  "currentAccountIndex (snd (isRateLimited a now m)) = currentAccountIndex m"
proof -
  have "(\<lambda>ts. now - 60000 < ts) = (\<lambda>ts. now - ts < 60000)" by (rule ext) arith
  then show "accounts (snd (isRateLimited a now m)) =
     (accounts m)(a := (accounts m a)\<lparr>requestTimestamps :=
        filter (\<lambda>ts. now - ts < 60000) (requestTimestamps (accounts m a))\<rparr>)"
    by (simp add: isRateLimited_def Let_def)
qed (simp_all add: isRateLimited_def Let_def)

text \<open>Pruning at the same clock value does not change any later answer.\<close>

lemma isRateLimited_stable:
  "fst (isRateLimited a now (snd (isRateLimited b now m))) = fst (isRateLimited a now m)"
  by (simp add: isRateLimited_fst isRateLimited_snd requestsInWindow_def)

lemma limitedAndNot_fst:
  "fst (limitedAndNot a b now m) \<longleftrightarrow>
     fst (isRateLimited a now m) \<and> \<not> fst (isRateLimited b now m)"
  by (simp add: limitedAndNot_def case_prod_beta isRateLimited_stable)

lemma limitedAndNot_stable:
  "fst (isRateLimited a now (snd (limitedAndNot b c now m))) = fst (isRateLimited a now m)"
  by (simp add: limitedAndNot_def case_prod_beta isRateLimited_stable)

lemma limitedAndNot_stable2:
  "fst (limitedAndNot a b now (snd (limitedAndNot c d now m))) = fst (limitedAndNot a b now m)"
  by (simp add: limitedAndNot_fst limitedAndNot_stable)

lemma selectLeastLoaded_override:
  assumes "fst (isRateLimited a now m)" "\<not> fst (isRateLimited b now m)" "a \<noteq> b"
  shows "fst (selectLeastLoaded now m) = b"
  using assms
  by (cases a; cases b)
     (simp_all add: selectLeastLoaded_def case_prod_beta limitedAndNot_fst limitedAndNot_stable)

lemma selectCostOptimized_override:
  assumes "fst (isRateLimited a now m)" "\<not> fst (isRateLimited b now m)" "a \<noteq> b"
  shows "fst (selectCostOptimized now m) = b"
  using assms
  by (cases a; cases b)
     (simp_all add: selectCostOptimized_def case_prod_beta limitedAndNot_fst limitedAndNot_stable)

text \<open>
  Claim C6.  \<open>isRateLimited\<close> answers true exactly when the number of recorded
  request timestamps less than 60 seconds old is at least the account's configured
  requests-per-minute limit, and it leaves exactly those timestamps in the window.
  Under the least-loaded and the cost-optimized policy, when one account is
  rate-limited and the other is not, \<open>selectAccount\<close> returns the one that is not,
  whatever the in-flight counters and cumulative costs are.
\<close>

theorem C6_rate_limit:
  "(fst (isRateLimited a now m) \<longleftrightarrow>
      rateLimit (config (accounts m a))
        \<le> int (requestsInWindow now (requestTimestamps (accounts m a))))
   \<and> requestTimestamps (accounts (snd (isRateLimited a now m)) a)
        = filter (\<lambda>ts. now - ts < 60000) (requestTimestamps (accounts m a))
   \<and> (strategy m \<in> {LeastLoaded, CostOptimized} \<longrightarrow>
        fst (isRateLimited a now m) \<longrightarrow> \<not> fst (isRateLimited b now m) \<longrightarrow>
        fst (selectAccount now m) = b)"
proof -
  have "fst (selectAccount now m) = b"
    if "strategy m \<in> {LeastLoaded, CostOptimized}"
      and "fst (isRateLimited a now m)" and "\<not> fst (isRateLimited b now m)"
  proof -
    from that have "a \<noteq> b" by auto
    with that show ?thesis
      by (auto simp: selectAccount_def selectLeastLoaded_override selectCostOptimized_override)
  qed
  then show ?thesis
    by (simp add: isRateLimited_fst isRateLimited_snd)
qed


text \<open>
  A run in which the rate-limited account carries the lower load: the load comparison
  alone would pick \<open>account1\<close>, the override picks \<open>account2\<close>.
\<close>

theorem C6_rate_limit_witness:
  "let cfg = \<lparr>apiKey = ''k'', baseURL = None, name = ''n'', maxConcurrent = 10, rateLimit = 2\<rparr>;
       m = snd (runOps [(1000, OpGetClient (Some Account1)), (2000, OpGetClient (Some Account1)),
                        (2500, OpCompleteRequest Account1 10 0), (2600, OpCompleteRequest Account1 10 0),
                        (2700, OpGetClient (Some Account2))]
                 (newAccountManager cfg cfg LeastLoaded))
   in strategy m \<in> {LeastLoaded, CostOptimized}
      \<and> fst (isRateLimited Account1 3000 m) \<and> \<not> fst (isRateLimited Account2 3000 m)
      \<and> activeRequests (stats (accounts m Account1)) < activeRequests (stats (accounts m Account2))
      \<and> fst (selectAccount 3000 m) = Account2"
  using C6_rate_limit[of Account1 3000
      "snd (runOps [(1000, OpGetClient (Some Account1)), (2000, OpGetClient (Some Account1)),
                        (2500, OpCompleteRequest Account1 10 0), (2600, OpCompleteRequest Account1 10 0),
                        (2700, OpGetClient (Some Account2))]
                 (newAccountManager \<lparr>apiKey = ''k'', baseURL = None, name = ''n'', maxConcurrent = 10, rateLimit = 2\<rparr>
                    \<lparr>apiKey = ''k'', baseURL = None, name = ''n'', maxConcurrent = 10, rateLimit = 2\<rparr> LeastLoaded))"
      Account2]
  by (simp add: Let_def newAccountManager_def newAccount_def getClient_def completeRequest_def
      trackRequest_def isRateLimited_def setAccount_def)

lemma selectAccount_RR:
  "strategy m = RoundRobin \<Longrightarrow>
     selectAccount now m =
       ([Account1, Account2] ! (currentAccountIndex m mod 2),
        m\<lparr>currentAccountIndex := Suc (currentAccountIndex m)\<rparr>)"
  by (simp add: selectAccount_def selectRoundRobin_def)

lemma applyOp_RR:
  assumes "strategy m = RoundRobin"
  shows "strategy (snd (applyOp (now, op) m)) = RoundRobin"
    and "currentAccountIndex (snd (applyOp (now, op) m)) =
           (if selects op then Suc (currentAccountIndex m) else currentAccountIndex m)"
    and "fst (applyOp (now, op) m) =
           (if selects op then [[Account1, Account2] ! (currentAccountIndex m mod 2)] else [])"
  using assms
  by (cases op rule: selects.cases;
      simp add: selectAccount_RR getClient_def completeRequest_def Let_def isRateLimited_snd)+

lemma runOps_RR:
  "strategy m = RoundRobin \<Longrightarrow>
     fst (runOps ops m) =
       map (\<lambda>k. [Account1, Account2] ! ((currentAccountIndex m + k) mod 2))
         [0..<length (filter (\<lambda>x. selects (snd x)) ops)]"
proof (induction ops arbitrary: m)
  case Nil
  then show ?case by simp
next
  case (Cons x ops)
  obtain now op where x: "x = (now, op)" by (cases x)
  let ?m1 = "snd (applyOp (now, op) m)"
  have rr: "strategy ?m1 = RoundRobin" using Cons.prems by (rule applyOp_RR)
  have ih: "fst (runOps ops ?m1) =
       map (\<lambda>k. [Account1, Account2] ! ((currentAccountIndex ?m1 + k) mod 2))
         [0..<length (filter (\<lambda>x. selects (snd x)) ops)]"
    by (rule Cons.IH[OF rr])
  have split: "fst (runOps ((now, op) # ops) m) = fst (applyOp (now, op) m) @ fst (runOps ops ?m1)"
    by (simp add: case_prod_beta)
  show ?case
  proof (cases "selects op")
    case True
    then show ?thesis
      using ih applyOp_RR[OF Cons.prems, of now op]
      by (simp add: split x upt_conv_Cons map_Suc_upt[symmetric] comp_def del: upt_Suc runOps.simps)
  next
    case False
    then show ?thesis
      using ih applyOp_RR[OF Cons.prems, of now op]
      by (simp add: split x del: runOps.simps)
  qed
qed

text \<open>
  Claim C8.  Under the round-robin policy, in any sequence of allocator calls (so
  whatever load, rate-limit window and cost the calls build up), the \<open>n\<close>-th
  selection, counted from zero from construction, is the account at position
  \<open>n mod 2\<close> of the list \<open>['account1', 'account2']\<close>.
\<close>

theorem C8_round_robin:
  "fst (runOps ops (newAccountManager account1 account2 RoundRobin)) =
     map (\<lambda>n. [Account1, Account2] ! (n mod 2))
       [0..<length (filter (\<lambda>x. selects (snd x)) ops)]"
  using runOps_RR[of "newAccountManager account1 account2 RoundRobin" ops]
  by (simp add: newAccountManager_def)

lemma nonneg_isRateLimited: "nonneg m \<Longrightarrow> nonneg (snd (isRateLimited a now m))"
  by (simp add: nonneg_def isRateLimited_snd)

lemma nonneg_limitedAndNot: "nonneg m \<Longrightarrow> nonneg (snd (limitedAndNot a b now m))"
  by (simp add: limitedAndNot_def case_prod_beta nonneg_isRateLimited)

lemma nonneg_selectAccount: "nonneg m \<Longrightarrow> nonneg (snd (selectAccount now m))"
  by (cases "strategy m")
     (simp_all add: selectAccount_def selectRoundRobin_def selectLeastLoaded_def
        selectCostOptimized_def case_prod_beta nonneg_limitedAndNot, simp add: nonneg_def)

lemma nonneg_getClient: "nonneg m \<Longrightarrow> nonneg (snd (getClient k now m))"
proof -
  assume m: "nonneg m"
  have "nonneg (setAccount a (trackRequest now (accounts m' a)) m')" if "nonneg m'" for a m'
    using that by (simp add: nonneg_def trackRequest_def)
  with m show ?thesis
    by (cases k) (simp_all add: getClient_def case_prod_beta nonneg_selectAccount)
qed

lemma nonneg_completeRequest: "nonneg (completeRequest a t c m) \<longleftrightarrow> (\<forall>b. b \<noteq> a \<longrightarrow> 0 \<le> activeRequests (stats (accounts m b)))"
  by (auto simp add: nonneg_def completeRequest_def Let_def)

lemma nonneg_applyOp: "nonneg m \<Longrightarrow> nonneg (snd (applyOp x m))"
  by (cases "(x, m)" rule: applyOp.cases)
     (simp_all add: case_prod_beta nonneg_selectAccount nonneg_getClient nonneg_isRateLimited
        nonneg_completeRequest, simp add: nonneg_def)

lemma nonneg_runOps: "nonneg m \<Longrightarrow> nonneg (snd (runOps ops m))"
  by (induction ops arbitrary: m) (simp_all add: case_prod_beta nonneg_applyOp)

text \<open>
  Claim C7.  After any sequence of allocator calls from construction the in-flight
  counter of each account is non-negative; \<open>completeRequest\<close> lowers it by one but
  not below zero and adds the given tokens and cost to the cumulative totals, and
  \<open>getClient\<close> raises it by one.
\<close>

theorem C7_inflight_nonneg:
  "0 \<le> activeRequests (stats (accounts (snd (runOps ops (newAccountManager account1 account2 strat))) a))
   \<and> activeRequests (stats (accounts (completeRequest a tokensUsed cost m) a))
        = max 0 (activeRequests (stats (accounts m a)) - 1)
   \<and> 0 \<le> activeRequests (stats (accounts (completeRequest a tokensUsed cost m) a))
   \<and> totalTokens (stats (accounts (completeRequest a tokensUsed cost m) a))
        = totalTokens (stats (accounts m a)) + tokensUsed
   \<and> totalCost (stats (accounts (completeRequest a tokensUsed cost m) a))
        = totalCost (stats (accounts m a)) + cost
   \<and> activeRequests (stats (accounts (snd (getClient (Some a) now m)) a))
        = activeRequests (stats (accounts m a)) + 1"
proof -
  have "nonneg (newAccountManager account1 account2 strat)"
    by (simp add: nonneg_def newAccountManager_def newAccount_def split: accountId.splits)
  then have "nonneg (snd (runOps ops (newAccountManager account1 account2 strat)))"
    by (rule nonneg_runOps)
  then show ?thesis
    by (simp add: nonneg_def completeRequest_def Let_def getClient_def trackRequest_def)
qed

section \<open>Properties of the orchestrator: decomposition\<close>

text \<open>Definitions unfolded when a concrete run is evaluated.\<close>

lemmas am_defs = getClient_def selectAccount_def selectLeastLoaded_def limitedAndNot_def
  isRateLimited_def bothRateLimited_def setAccount_def trackRequest_def completeRequest_def
  newAccountManager_def newAccount_def exampleAccount_def

lemmas run_defs = failingEnv_def answeringEnv_def undescribingEnv_def exampleSubTask_def
  exampleEnv_def exampleWorld_def exampleSuperAgent_def exampleTask_def
  exampleParse_def fresh_def suspend_def stmtRun_def saveAgent_def saveConversation_def
  saveDocument_def updateAgentStatus_def orNull_def
  decomposeTask_def decomposeTry_def decomposeCatch_def
  executeByStrategy_def executeAdaptive_def executeParallel_def execute_def
  spawnSubAgent_def poll_def workerStep_def executeSend_def executeReceive_def executeCatch_def
  settle_def collect_def pending_def isSettled_def setKey_def deleteKey_def
  buildPrompt_def getSystemPrompt_def selectModel_def
  aggregateResults_def executeTask_def executeTaskTry_def executeTaskCatch_def
  saveTask_def saveFinalResult_def strOr_def firstContent_def tokensOf_def errorMessage_def
  orElse_def estimateCost_def estimateCostSub_def costPerThousand_def
  Let_def

lemma threeEntries_neq: "threeEntries \<noteq> []" "threeEntries \<noteq> ''[]''"
  "threeEntries \<noteq> noDescription"
  by (simp_all add: threeEntries_def noDescription_def)

lemma noDescription_neq: "noDescription \<noteq> []" "noDescription \<noteq> ''[]''"
  by (simp_all add: noDescription_def)

text \<open>
  Claim C1 (the code does not do this).  The orchestrator is configured with
  \<open>maxSubAgents = 2\<close> and the transport answers the decomposition request with a
  JSON array of three entries: \<open>decomposeTask\<close> returns three sub-tasks, one per
  entry.  \<open>decomposeTask\<close> never reads \<open>maxSubAgents\<close>.
\<close>

theorem C1_decompose_exceeds_bound:
  "case decomposeTask (exampleEnv (\<lambda>k. ChatResponse [Some threeEntries] (Some 120)))
          (exampleSuperAgent 2 Adaptive) exampleTask (exampleWorld 60) of
     (Inr subTasks, w) \<Rightarrow>
        map st_description subTasks = [JStr ''a'', JStr ''b'', JStr ''c'']
        \<and> \<not> int (length subTasks) \<le> maxSubAgents (sa_config (exampleSuperAgent 2 Adaptive))
   | (Inl e, w) \<Rightarrow> False"
  by (simp add: run_defs am_defs threeEntries_neq)


lemma getProp_fails: "(\<exists>e. getProp v k = Inl e) \<longleftrightarrow> v = JNull \<or> v = JUndefined"
  by (cases v) simp_all

lemma mapSubTasks_fails:
  "(\<exists>e. fst (mapSubTasks env t i entries w) = Inl e)
     \<longleftrightarrow> list_ex (\<lambda>x. x = JNull \<or> x = JUndefined) entries"
proof (induction entries arbitrary: i w)
  case Nil
  then show ?case by simp
next
  case (Cons st rest)
  show ?case
  proof (cases "st = JNull \<or> st = JUndefined")
    case True
    then show ?thesis by (auto simp: fresh_def)
  next
    case False
    then obtain d p c where g: "getProp st ''description'' = Inr d"
      "getProp st ''priority'' = Inr p" "getProp st ''estimatedComplexity'' = Inr c"
      by (cases st) auto
    let ?w1 = "snd (fresh env w)"
    have "(\<exists>e. fst (mapSubTasks env t i (st # rest) w) = Inl e)
            \<longleftrightarrow> (\<exists>e. fst (mapSubTasks env t (i + 1) rest ?w1) = Inl e)"
      using g by (auto simp: split_beta split: sum.splits)
    then show ?thesis using False Cons.IH[of "i + 1" ?w1] by simp
  qed
qed

lemma mapSubTasks_length:
  "fst (mapSubTasks env t i entries w) = Inr subs \<Longrightarrow> length subs = length entries"
proof (induction entries arbitrary: i w subs)
  case Nil
  then show ?case by simp
next
  case (Cons st rest)
  then show ?case
    by (auto simp: split_beta split: sum.splits)
qed

lemma decomposeTry_fails:
  "(\<exists>e. fst (decomposeTry env t a outcome w) = Inl e) \<longleftrightarrow> decompositionFails env outcome"
proof (cases outcome)
  case (ChatFails e)
  then show ?thesis by (simp add: decomposeTry_def decompositionFails_def)
next
  case (ChatResponse choices usage)
  show ?thesis
  proof (cases "JSON_parse env (strOr (firstContent choices) ''[]'')")
    case (Inl e)
    then show ?thesis using ChatResponse
      by (simp add: decomposeTry_def decompositionFails_def Let_def)
  next
    case (Inr v)
    then show ?thesis using ChatResponse
      by (cases v)
         (simp_all add: decomposeTry_def decompositionFails_def Let_def mapSubTasks_fails)
  qed
qed

lemma decomposeCatch_fallback:
  "decomposeCatch env t e w =
     (Inr [fallbackSubTask (uuidv4 env (uuids w)) t],
      w\<lparr>console := console w @ [e], uuids := uuids w + 1\<rparr>)"
  by (simp add: decomposeCatch_def fresh_def fallbackSubTask_def)

lemma decomposeTask_never_throws: "fst (decomposeTask env sa t w) \<noteq> Inl e"
  by (auto simp: decomposeTask_def Let_def split_beta decomposeCatch_fallback
      split: prod.splits sum.splits)

lemma decomposeTask_fallback:
  assumes "decompositionFails env (chat env (length (sent w)))"
  shows "\<exists>newId w'. decomposeTask env sa t w = (Inr [fallbackSubTask newId t], w')"
proof -
  obtain a m1 where gc: "getClient None (clock w) (am w) = (a, m1)" by (cases "getClient None (clock w) (am w)")
  let ?w2 = "suspend env (w\<lparr>am := m1, sent := sent w @
                       [(a, [(''system'', ''You are a task decomposition expert. Output only valid JSON.''),
                          (''user'', decompositionPrompt t)], ''grok-3-fast'')]\<rparr>)"
  from assms obtain e where "fst (decomposeTry env t a (chat env (length (sent w))) ?w2) = Inl e"
    using decomposeTry_fails by blast
  then obtain w3 where "decomposeTry env t a (chat env (length (sent w))) ?w2 = (Inl e, w3)"
    by (cases "decomposeTry env t a (chat env (length (sent w))) ?w2") auto
  then have "decomposeTask env sa t w =
      (Inr [fallbackSubTask (uuidv4 env (uuids w3)) t],
       w3\<lparr>console := console w3 @ [e], uuids := uuids w3 + 1\<rparr>)"
    by (simp add: decomposeTask_def gc Let_def decomposeCatch_fallback)
  then show ?thesis by blast
qed

text \<open>
  Claim C2, amended.  If the decomposition call to the transport fails, or
  \<open>JSON.parse\<close> rejects the content of the response, or the parsed value is not an
  array, or an entry of the array is \<open>null\<close>, then \<open>decomposeTask\<close> returns
  exactly one sub-task, with the description and the complexity of the task and
  priority 1.  In no case does \<open>decomposeTask\<close> throw.
\<close>

theorem C2_decompose_fallback:
  "(decompositionFails env (chat env (length (sent w))) \<longrightarrow>
      (\<exists>newId w'. decomposeTask env sa t w =
         (Inr [\<lparr>st_id = newId, st_description = JStr (task_description t),
                 st_priority = JNum 1, st_parentTaskId = task_id t,
                 st_complexity = JStr (task_complexity t), st_context = None\<rparr>], w')))
   \<and> (\<forall>e. fst (decomposeTask env sa t w) \<noteq> Inl e)"
  using decomposeTask_fallback[of env w sa t] decomposeTask_never_throws[of env sa t w]
  by (auto simp: fallbackSubTask_def)

theorem C2_decompose_fallback_witness:
  "decompositionFails (failingEnv)
     (chat (failingEnv) (length (sent (exampleWorld 60))))
   \<and> fst (decomposeTask (failingEnv)
            (exampleSuperAgent 5 Adaptive) exampleTask (exampleWorld 60))
       = Inr [\<lparr>st_id = ''id0'', st_description = JStr ''Summarize module X and list risks'',
                st_priority = JNum 1, st_parentTaskId = ''task-1'',
                st_complexity = JStr ''medium'', st_context = None\<rparr>]"
  using C2_decompose_fallback[of "failingEnv"
      "exampleWorld 60" "exampleSuperAgent 5 Adaptive" exampleTask]
  by (simp add: decompositionFails_def run_defs am_defs)

text \<open>
  Claim C2 as stated fails on an empty result: a response whose content is empty is
  read as \<open>'[]'\<close>, which parses, and \<open>decomposeTask\<close> returns no sub-task at all.
\<close>

theorem C2_empty_response_counterexample:
  "fst (decomposeTask (exampleEnv (\<lambda>k. ChatResponse [Some []] None))
          (exampleSuperAgent 5 Adaptive) exampleTask (exampleWorld 60)) = Inr []"
  by (simp add: run_defs am_defs)

section \<open>Properties of the orchestrator: aggregation and the task boundary\<close>

lemma foldl_plus_sum_list:
  fixes f :: "'a \<Rightarrow> 'b::comm_monoid_add"
  shows "foldl (\<lambda>sum r. sum + f r) a xs = a + sum_list (map f xs)"
  by (induction xs arbitrary: a) (simp_all add: add.assoc)

lemma aggregateResults_returns:
  "\<exists>text w'. aggregateResults env sa t rs w = (Inr text, w')"
  by (cases "chat env (length (sent w))")
     (simp_all add: aggregateResults_def Let_def split_beta)

lemma aggregateResults_fallback:
  "chat env (length (sent w)) = ChatFails e \<Longrightarrow>
     fst (aggregateResults env sa t rs w) = Inr (subResultsText rs)"
  by (simp add: aggregateResults_def Let_def split_beta)

lemma join_nth:
  "i < length xs \<Longrightarrow> \<exists>pre post. join sep xs = pre @ xs ! i @ post"
proof (induction sep xs arbitrary: i rule: join.induct)
  case (1 sep)
  then show ?case by simp
next
  case (2 sep x)
  then have "join sep [x] = [] @ [x] ! i @ []" by simp
  then show ?case by blast
next
  case (3 sep x y ys)
  show ?case
  proof (cases i)
    case 0
    then have "join sep (x # y # ys) = [] @ (x # y # ys) ! i @ (sep @ join sep (y # ys))"
      by simp
    then show ?thesis by blast
  next
    case (Suc j)
    with 3 obtain pre post where "join sep (y # ys) = pre @ (y # ys) ! j @ post"
      by fastforce
    then have "join sep (x # y # ys) = (x @ sep @ pre) @ (x # y # ys) ! i @ post"
      using Suc by simp
    then show ?thesis by blast
  qed
qed

lemma subResultsText_block:
  assumes "i < length rs"
  shows "\<exists>pre post. subResultsText rs = pre @ subResultBlock i (rs ! i) @ post"
proof -
  let ?blocks = "map (\<lambda>(i, r). subResultBlock i r) (zip [0..<length rs] rs)"
  have "?blocks ! i = subResultBlock i (rs ! i)" using assms by simp
  moreover have "i < length ?blocks" using assms by simp
  ultimately show ?thesis
    unfolding subResultsText_def using join_nth[of i ?blocks] by metis
qed





lemma executeTask_completes:
  assumes "saveTask env sa t w = (None, w1)"
    and "decomposeTask env sa t w1 = (Inr sts, w2)"
    and "executeByStrategy env sa sts w2 = Some (Inr rs, w3)"
    and "aggregateResults env sa t rs w3 = (Inr final, w4)"
    and "saveFinalResult env sa t final (sum_list (map r_tokensUsed rs))
           (sum_list (map r_cost rs)) w4 = (None, w5)"
  shows "executeTask env sa t w =
           Some (Inr \<lparr>tr_taskId = task_id t, tr_success = True, tr_result = final,
                      tr_subResults = rs,
                      tr_tokensUsed = sum_list (map r_tokensUsed rs),
                      tr_cost = sum_list (map r_cost rs),
                      tr_duration = clock w4 - clock w\<rparr>, w5)"
  using assms by (simp add: executeTask_def executeTaskTry_def Let_def foldl_plus_sum_list)



lemma executeTaskCatch_throws:
  assumes "updateAgentStatus env (sa_id sa) ''failed'' (Some (errorMessage e)) w = (Some e', w1)"
  shows "executeTaskCatch env sa t start e w = (Inl e', w1)"
  using assms by (simp add: executeTaskCatch_def Let_def)

lemma executeTaskCatch_totals:
  assumes "executeTaskCatch env sa t start e w = (Inr r, w')"
  shows "\<not> tr_success r \<and> tr_result r = errorMessage e \<and> tr_subResults r = []
       \<and> tr_tokensUsed r = 0 \<and> tr_cost r = 0"
  using assms by (auto simp: executeTaskCatch_def Let_def split: prod.splits option.splits)

lemma executeTaskTry_totals:
  assumes "executeTaskTry env sa t start w = Some (Inr r, w')"
  shows "tr_success r \<and> tr_tokensUsed r = sum_list (map r_tokensUsed (tr_subResults r))
       \<and> tr_cost r = sum_list (map r_cost (tr_subResults r))"
  using assms
  by (auto simp: executeTaskTry_def Let_def foldl_plus_sum_list
           split: prod.splits option.splits sum.splits)

text \<open>
  Claim C3.  Whenever \<open>executeTask\<close> returns a TaskResult, its \<open>tokensUsed\<close> is
  the sum of \<open>tokensUsed\<close> over its \<open>subResults\<close> and its \<open>cost\<close> is the sum
  of \<open>cost\<close> over its \<open>subResults\<close>.
\<close>

theorem C3_accounting:
  assumes "executeTask env sa t w = Some (Inr r, w')"
  shows "tr_tokensUsed r = sum_list (map r_tokensUsed (tr_subResults r))
       \<and> tr_cost r = sum_list (map r_cost (tr_subResults r))"
proof (cases "executeTaskTry env sa t (clock w) w")
  case None
  then show ?thesis using assms by (simp add: executeTask_def)
next
  case (Some x)
  obtain out w1 where x: "x = (out, w1)" by (cases x)
  show ?thesis
  proof (cases out)
    case (Inl e)
    with Some x assms have "executeTaskCatch env sa t (clock w) e w1 = (Inr r, w')"
      by (simp add: executeTask_def)
    then show ?thesis using executeTaskCatch_totals by fastforce
  next
    case (Inr r')
    with Some x assms have "executeTaskTry env sa t (clock w) w = Some (Inr r, w')"
      by (simp add: executeTask_def)
    then show ?thesis using executeTaskTry_totals by blast
  qed
qed
section \<open>Properties of workers and of the execution strategies\<close>

lemma runWorkers_induct [consumes 1, case_names stop step]:
  assumes run: "runWorkers env agents w = Some y"
    and stop: "\<And>agents w. rejection agents \<noteq> None \<or> pending agents = [] \<Longrightarrow> P agents w (agents, w)"
    and step: "\<And>agents w y i a' w2.
        rejection agents = None \<Longrightarrow> pending agents \<noteq> [] \<Longrightarrow>
        i = pending agents ! (pick env (suspensions w) mod length (pending agents)) \<Longrightarrow>
        workerStep env (agents ! i) (suspend env w) = (a', w2) \<Longrightarrow>
        P (agents[i := a']) w2 y \<Longrightarrow> P agents w y"
  shows "P agents w y"
proof -
  have "env' = env \<longrightarrow> P agents w y" if "runWorkers env' agents w = Some y" for env'
  proof (rule runWorkers.raw_induct[where P = "\<lambda>env' agents w y. env' = env \<longrightarrow> P agents w y", OF _ that])
    fix rw env' agents w y
    assume ih: "\<And>env' agents w y. rw env' agents w = Some y \<Longrightarrow> env' = env \<longrightarrow> P agents w y"
      and eq: "(if rejection agents \<noteq> None \<or> pending agents = [] then Some (agents, w)
          else let w1 = suspend env' w;
                   i = pending agents ! (pick env' (suspensions w) mod length (pending agents))
               in case workerStep env' (agents ! i) w1 of
                    (a', w2) \<Rightarrow> rw env' (agents[i := a']) w2) = Some y"
    show "env' = env \<longrightarrow> P agents w y"
    proof
      assume e: "env' = env"
      show "P agents w y"
      proof (cases "rejection agents \<noteq> None \<or> pending agents = []")
        case True
        with eq have "y = (agents, w)" by simp
        with True stop show ?thesis by simp
      next
        case False
        let ?i = "pending agents ! (pick env (suspensions w) mod length (pending agents))"
        obtain a' w2 where ws: "workerStep env (agents ! ?i) (suspend env w) = (a', w2)"
          by (cases "workerStep env (agents ! ?i) (suspend env w)")
        with eq False e have "rw env (agents[?i := a']) w2 = Some y"
          by (simp add: Let_def)
        with ih have "P (agents[?i := a']) w2 y" by blast
        with False ws show ?thesis using step[of agents ?i w a' w2 y] by simp
      qed
    qed
  qed
  with run show ?thesis by blast
qed

lemma pending_set: "set (pending agents) = {i. i < length agents \<and> \<not> isSettled (agents ! i)}"
  by (auto simp: pending_def)

lemma pending_pick:
  assumes "pending agents \<noteq> []"
  shows "pending agents ! (k mod length (pending agents)) < length agents"
    and "\<not> isSettled (agents ! (pending agents ! (k mod length (pending agents))))"
proof -
  have "pending agents ! (k mod length (pending agents)) \<in> set (pending agents)"
    using assms by simp
  then show "pending agents ! (k mod length (pending agents)) < length agents"
    and "\<not> isSettled (agents ! (pending agents ! (k mod length (pending agents))))"
    unfolding pending_set by simp_all
qed

lemma pending_Nil: "pending agents = [] \<longleftrightarrow> (\<forall>a\<in>set agents. isSettled a)"
proof -
  have "pending agents = [] \<longleftrightarrow> set (pending agents) = {}" by simp
  also have "\<dots> \<longleftrightarrow> (\<forall>i<length agents. isSettled (agents ! i))"
    unfolding pending_set by auto
  also have "\<dots> \<longleftrightarrow> (\<forall>a\<in>set agents. isSettled a)"
    by (simp add: all_set_conv_all_nth)
  finally show ?thesis .
qed

lemma rejection_None: "rejection agents = None \<longleftrightarrow> (\<forall>a\<in>set agents. \<forall>e. phase a \<noteq> Settled (Inl e))"
  by (induction agents) (auto split: phase.splits sum.splits)

text \<open>A statement changes the database only.\<close>

lemma unchangedD:
  assumes "unchanged w w'"
  shows "history w' = history w" "am w' = am w" "clock w' = clock w" "sent w' = sent w"
    "suspensions w' = suspensions w" "uuids w' = uuids w"
    "activeSubAgents w' = activeSubAgents w" "console w' = console w"
proof -
  from assms have e: "w' = w\<lparr>db := db w', dbCalls := dbCalls w'\<rparr>"
    by (simp add: unchanged_def)
  show "history w' = history w" by (subst e) simp
  show "am w' = am w" by (subst e) simp
  show "clock w' = clock w" by (subst e) simp
  show "sent w' = sent w" by (subst e) simp
  show "suspensions w' = suspensions w" by (subst e) simp
  show "uuids w' = uuids w" by (subst e) simp
  show "activeSubAgents w' = activeSubAgents w" by (subst e) simp
  show "console w' = console w" by (subst e) simp
qed

lemma stmtRun_unchanged: "stmtRun env ev w = (x, w') \<Longrightarrow> unchanged w w'"
  unfolding unchanged_def stmtRun_def Let_def
  by (cases "violation (db w) ev"; cases "dbFault env (dbCalls w)") auto

lemma saveAgent_unchanged: "saveAgent env i ty p k s tk c w = (x, w') \<Longrightarrow> unchanged w w'"
  unfolding saveAgent_def by (rule stmtRun_unchanged)

lemma saveConversation_unchanged:
  "saveConversation env i s sub k r c ts tk co w = (x, w') \<Longrightarrow> unchanged w w'"
  unfolding saveConversation_def by (rule stmtRun_unchanged)

lemma saveDocument_unchanged:
  "saveDocument env i c ty ti co f t tags w = (x, w') \<Longrightarrow> unchanged w w'"
  unfolding saveDocument_def by (rule stmtRun_unchanged)

lemma updateAgentStatus_unchanged:
  "updateAgentStatus env i s r w = (x, w') \<Longrightarrow> unchanged w w'"
  unfolding updateAgentStatus_def Let_def by (rule stmtRun_unchanged)

text \<open>What one segment of a worker does to the worker and to the history.\<close>

lemma executeCatch_spec:
  assumes "executeCatch env a k e w = (out, w')"
  shows "history w' = history w \<and> (\<forall>r. out = Inr r \<longrightarrow> r_taskId r = st_id (ag_task a))"
proof -
  obtain x w1 where u: "updateAgentStatus env (ag_id a) ''failed'' (Some (errorMessage e)) w = (x, w1)"
    by (cases "updateAgentStatus env (ag_id a) ''failed'' (Some (errorMessage e)) w")
  note unchangedD(1)[OF updateAgentStatus_unchanged[OF u]]
  with assms u show ?thesis
    by (cases x) (auto simp: executeCatch_def Let_def)
qed

lemma settle_eq:
  "settle a out w = (a', w') \<Longrightarrow>
     a' = a\<lparr>phase := Settled out\<rparr> \<and> history w' = history w @ [Finished (ag_task a)]"
  by (auto simp: settle_def)

lemma settle_spec:
  assumes "settle a out w1 = (a', w')" "history w1 = history w"
    and "\<forall>r. out = Inr r \<longrightarrow> r_taskId r = st_id (ag_task a)"
  shows "stepSpec a w a' w'"
  using settle_eq[OF assms(1)] assms(2,3) by (auto simp: stepSpec_def isSettled_def)

lemma settleCatch_spec:
  assumes "(case executeCatch env a k e w1 of (out, w2) \<Rightarrow> settle a out w2) = (a', w')"
    and "history w1 = history w"
  shows "stepSpec a w a' w'"
proof -
  obtain out w2 where c: "executeCatch env a k e w1 = (out, w2)"
    by (cases "executeCatch env a k e w1")
  with assms(1) have "settle a out w2 = (a', w')" by simp
  from settle_spec[OF this] executeCatch_spec[OF c] assms(2) show ?thesis by simp
qed

lemma poll_eq:
  "poll a w = (a', w') \<Longrightarrow>
     (\<exists>t. a' = a\<lparr>phase := Sleeping t\<rparr> \<or> a' = a\<lparr>phase := Resumable\<rparr>) \<and> history w' = history w"
  by (auto simp: poll_def split: prod.splits if_splits)

lemma executeSend_spec:
  assumes "executeSend env a w = (a', w')"
  shows "stepSpec a w a' w'"
proof -
  obtain k m1 where gc: "getClient None (clock w) (am w) = (k, m1)"
    by (cases "getClient None (clock w) (am w)")
  obtain x w1 where sa: "saveAgent env (ag_id a) ''sub'' (Some (ag_superAgentId a)) k
      ''active'' (st_description (ag_task a)) (clock w) (w\<lparr>am := m1\<rparr>) = (x, w1)"
    by (cases "saveAgent env (ag_id a) ''sub'' (Some (ag_superAgentId a)) k
      ''active'' (st_description (ag_task a)) (clock w) (w\<lparr>am := m1\<rparr>)")
  have h1: "history w1 = history w"
    using unchangedD(1)[OF saveAgent_unchanged[OF sa]] by simp
  show ?thesis
  proof (cases x)
    case (Some e)
    with assms gc sa have "settle a (Inl e) w1 = (a', w')"
      by (simp add: executeSend_def)
    from settle_spec[OF this h1] show ?thesis by simp
  next
    case None
    show ?thesis
    proof (cases "buildPrompt env (ag_task a)")
      case (Inl e)
      with assms gc sa None
      have "(case executeCatch env a k e w1 of (out, w2) \<Rightarrow> settle a out w2) = (a', w')"
        by (simp add: executeSend_def Let_def)
      from settleCatch_spec[OF this h1] show ?thesis .
    next
      case (Inr prompt)
      obtain cid w2 where f: "fresh env w1 = (cid, w2)" by (cases "fresh env w1")
      obtain y w3 where sc: "saveConversation env cid (ag_superAgentId a) (Some (ag_id a))
          k ''user'' prompt (clock w2) None None w2 = (y, w3)"
        by (cases "saveConversation env cid (ag_superAgentId a) (Some (ag_id a))
          k ''user'' prompt (clock w2) None None w2")
      have h3: "history w3 = history w"
        using unchangedD(1)[OF saveConversation_unchanged[OF sc]] f h1
        by (auto simp: fresh_def)
      show ?thesis
      proof (cases y)
        case (Some e)
        with assms gc sa None Inr f sc
        have "(case executeCatch env a k e w3 of (out, w4) \<Rightarrow> settle a out w4) = (a', w')"
          by (simp add: executeSend_def Let_def)
        from settleCatch_spec[OF this h3] show ?thesis .
      next
        case sent: None
        show ?thesis
        proof (cases "getSystemPrompt env (ag_task a)")
          case (Inl e)
          with assms gc sa None Inr f sc sent
          have "(case executeCatch env a k e w3 of (out, w4) \<Rightarrow> settle a out w4) = (a', w')"
            by (simp add: executeSend_def Let_def)
          from settleCatch_spec[OF this h3] show ?thesis .
        next
          case sys: (Inr systemPrompt)
          with assms gc sa None Inr f sc sent
          have "a' = a\<lparr>phase := InFlight k (length (sent w3))\<rparr>" "history w' = history w3"
            by (auto simp: executeSend_def Let_def)
          with h3 show ?thesis by (auto simp: stepSpec_def isSettled_def)
        qed
      qed
    qed
  qed
qed

lemma executeReceive_spec:
  assumes "executeReceive env a k n w = (a', w')"
  shows "stepSpec a w a' w'"
proof (cases "chat env n")
  case (ChatFails e)
  with assms
  have "(case executeCatch env a k e w of (out, w2) \<Rightarrow> settle a out w2) = (a', w')"
    by (simp add: executeReceive_def)
  from settleCatch_spec[OF this] show ?thesis by simp
next
  case (ChatResponse choices usage)
  let ?result = "strOr (firstContent choices) ''No response''"
  let ?tokens = "tokensOf usage"
  let ?cost = "estimateCostSub ?tokens (selectModel (st_complexity (ag_task a)))"
  let ?w1 = "w\<lparr>am := completeRequest k ?tokens ?cost (am w)\<rparr>"
  obtain cid w2 where f: "fresh env ?w1 = (cid, w2)" by (cases "fresh env ?w1")
  obtain y w3 where sc: "saveConversation env cid (ag_superAgentId a) (Some (ag_id a))
      k ''assistant'' ?result (clock w2) (Some ?tokens) (Some ?cost) w2 = (y, w3)"
    by (cases "saveConversation env cid (ag_superAgentId a) (Some (ag_id a))
      k ''assistant'' ?result (clock w2) (Some ?tokens) (Some ?cost) w2")
  have h3: "history w3 = history w"
    using unchangedD(1)[OF saveConversation_unchanged[OF sc]] f by (auto simp: fresh_def)
  show ?thesis
  proof (cases y)
    case (Some e)
    with assms ChatResponse f sc
    have "(case executeCatch env a k e w3 of (out, w4) \<Rightarrow> settle a out w4) = (a', w')"
      by (simp add: executeReceive_def Let_def)
    from settleCatch_spec[OF this h3] show ?thesis .
  next
    case None
    obtain z w4 where u: "updateAgentStatus env (ag_id a) ''completed'' (Some ?result) w3 = (z, w4)"
      by (cases "updateAgentStatus env (ag_id a) ''completed'' (Some ?result) w3")
    have h4: "history w4 = history w"
      using unchangedD(1)[OF updateAgentStatus_unchanged[OF u]] h3 by simp
    show ?thesis
    proof (cases z)
      case (Some e)
      with assms ChatResponse f sc None u
      have "(case executeCatch env a k e w4 of (out, w5) \<Rightarrow> settle a out w5) = (a', w')"
        by (simp add: executeReceive_def Let_def)
      from settleCatch_spec[OF this h4] show ?thesis .
    next
      case updated: None
      with assms ChatResponse f sc None u
      have "settle a (Inr \<lparr>r_taskId = st_id (ag_task a), r_success = True,
                r_result = ?result, r_tokensUsed = ?tokens, r_cost = ?cost,
                r_account = k, r_duration = clock w4 - startTime a, r_error = None\<rparr>) w4
              = (a', w')"
        by (simp add: executeReceive_def Let_def)
      from settle_spec[OF this h4] show ?thesis by simp
    qed
  qed
qed

lemma workerStep_spec:
  assumes "workerStep env a w = (a', w')" "\<not> isSettled a"
  shows "stepSpec a w a' w'"
proof (cases "phase a")
  case (Sleeping t)
  with assms have "poll a (w\<lparr>clock := max (clock w) (t + 1000)\<rparr>) = (a', w')"
    by (simp add: workerStep_def)
  from poll_eq[OF this] show ?thesis by (auto simp: stepSpec_def isSettled_def)
next
  case Resumable
  with assms show ?thesis by (simp add: workerStep_def executeSend_spec)
next
  case (InFlight k n)
  with assms show ?thesis by (simp add: workerStep_def executeReceive_spec)
next
  case (Settled out)
  with assms show ?thesis by (simp add: isSettled_def)
qed

lemma suspend_simps [simp]:
  "history (suspend env w) = history w" "am (suspend env w) = am w"
  "sent (suspend env w) = sent w" "db (suspend env w) = db w"
  by (simp_all add: suspend_def)

lemma runWorkers_runSpec:
  assumes "runWorkers env agents w = Some y"
  shows "(\<forall>a\<in>set agents. sound a) \<longrightarrow> runSpec agents w y"
  using assms
proof (induct rule: runWorkers_induct)
  case (stop agents w)
  then show ?case by (simp add: runSpec_def)
next
  case (step agents w y i a' w2)
  show ?case
  proof
    assume s: "\<forall>a\<in>set agents. sound a"
    have i: "i < length agents" "\<not> isSettled (agents ! i)"
      using step(2,3) pending_pick[of agents] by simp_all
    from workerStep_spec[OF step(4) i(2)]
    obtain p where a': "a' = (agents ! i)\<lparr>phase := p\<rparr>"
      "\<forall>r. p = Settled (Inr r) \<longrightarrow> r_taskId r = st_id (ag_task (agents ! i))"
      and hist: "history w2 = history w @ (if isSettled a' then [Finished (ag_task (agents ! i))] else [])"
      by (auto simp: stepSpec_def)
    let ?agents2 = "agents[i := a']"
    have "sound a'" using a' by (simp add: sound_def)
    with s have s2: "\<forall>a\<in>set ?agents2. sound a"
      using set_update_subset_insert[of agents i a'] by auto
    have tasks: "map ag_task ?agents2 = map ag_task agents"
      using a'(1) i(1) by (simp add: map_update list_update_same_conv)
    from step(5) s2 have rs: "runSpec ?agents2 w2 y" by simp
    then obtain h where h: "history (snd y) = history w2 @ h"
      "set h \<subseteq> Finished ` set (map ag_task agents)"
      "\<forall>j<length agents. \<not> isSettled (?agents2 ! j) \<and> isSettled (fst y ! j) \<longrightarrow>
           Finished (ag_task (?agents2 ! j)) \<in> set h"
      unfolding runSpec_def tasks by auto
    let ?hs = "if isSettled a' then [Finished (ag_task (agents ! i))] else []"
    have 1: "history (snd y) = history w @ (?hs @ h)" using h(1) hist by simp
    have 2: "set (?hs @ h) \<subseteq> Finished ` set (map ag_task agents)"
      using h(2) i(1) by auto
    have 3: "Finished (ag_task (agents ! j)) \<in> set (?hs @ h)"
      if j: "j < length agents" "\<not> isSettled (agents ! j)" "isSettled (fst y ! j)" for j
    proof (cases "j = i")
      case True
      show ?thesis
      proof (cases "isSettled a'")
        case True
        with \<open>j = i\<close> show ?thesis by simp
      next
        case False
        with h(3) i(1) a'(1) j(3) \<open>j = i\<close> show ?thesis by fastforce
      qed
    next
      case False
      then have "?agents2 ! j = agents ! j" by simp
      with h(3) j show ?thesis by fastforce
    qed
    from rs 1 2 3 show "runSpec agents w y"
      unfolding runSpec_def tasks by blast
  qed
qed

lemma spawnSubAgent_spec:
  assumes "spawnSubAgent env sa t w = (a, w1)"
  shows "ag_task a = t \<and> \<not> isSettled a \<and> sound a \<and> history w1 = history w @ [Started t]"
proof -
  let ?a0 = "\<lparr>ag_id = fst (fresh env w), ag_task = t, ag_superAgentId = sa_id sa,
                startTime = clock (snd (fresh env w)), phase = Resumable\<rparr>"
  let ?w0 = "(snd (fresh env w))\<lparr>activeSubAgents := setKey (st_id t) (activeSubAgents (snd (fresh env w))),
                history := history (snd (fresh env w)) @ [Started t]\<rparr>"
  from assms have "poll ?a0 ?w0 = (a, w1)" by (simp add: spawnSubAgent_def split_beta)
  from poll_eq[OF this] show ?thesis
    by (auto simp: isSettled_def sound_def fresh_def)
qed

lemma spawnAll_spec:
  "spawnAll env sa ts w = (agents, w1) \<Longrightarrow>
     map ag_task agents = ts \<and> (\<forall>a\<in>set agents. sound a \<and> \<not> isSettled a)
     \<and> history w1 = history w @ map Started ts"
proof (induction ts arbitrary: w agents w1)
  case Nil
  then show ?case by simp
next
  case (Cons t ts)
  obtain a wa where sp: "spawnSubAgent env sa t w = (a, wa)" by (cases "spawnSubAgent env sa t w")
  obtain rest wb where sa: "spawnAll env sa ts wa = (rest, wb)" by (cases "spawnAll env sa ts wa")
  from Cons.prems sp sa have eq: "agents = a # rest" "w1 = wb" by simp_all
  from spawnSubAgent_spec[OF sp] Cons.IH[OF sa] eq show ?case by simp
qed

lemma collect_settled:
  assumes "\<forall>a\<in>set agents. sound a" "pending agents = []" "rejection agents = None"
  shows "collect agents = Inr (outcomes agents)
       \<and> map r_taskId (outcomes agents) = map (\<lambda>a. st_id (ag_task a)) agents"
proof -
  have "\<forall>a\<in>set agents. sound a \<and> isSettled a \<and> (\<forall>e. phase a \<noteq> Settled (Inl e))"
    using assms by (simp add: pending_Nil rejection_None)
  then have "map r_taskId (outcomes agents) = map (\<lambda>a. st_id (ag_task a)) agents"
    by (induction agents) (auto simp: sound_def isSettled_def split: phase.splits sum.splits)
  with assms(3) show ?thesis by (simp add: collect_def)
qed

lemma collect_Inr: "collect agents = Inr rs \<Longrightarrow> rejection agents = None \<and> rs = outcomes agents"
  by (auto simp: collect_def split: option.splits)

text \<open>
  The parallel strategy: the workers start in the order of the sub-tasks, then only
  ends of these workers follow; results are returned only when every worker has
  ended, in the order of the sub-tasks.
\<close>

lemma executeParallel_spec:
  assumes "executeParallel env sa ts w = Some (out, w')"
  shows "\<exists>h. history w' = history w @ map Started ts @ h
           \<and> set h \<subseteq> Finished ` set ts
           \<and> (\<forall>rs. out = Inr rs \<longrightarrow>
                 map r_taskId rs = map st_id ts \<and> set h = Finished ` set ts)"
proof -
  obtain agents w1 where sp: "spawnAll env sa ts w = (agents, w1)" by (cases "spawnAll env sa ts w")
  from assms sp obtain agents' where run: "runWorkers env agents w1 = Some (agents', w')"
    and out: "out = collect agents'"
    by (auto simp: executeParallel_def split: option.splits)
  note s = spawnAll_spec[OF sp]
  from runWorkers_runSpec[OF run] s have rs: "runSpec agents w1 (agents', w')" by simp
  then obtain h where h: "history w' = history w1 @ h" "set h \<subseteq> Finished ` set ts"
    "\<forall>j<length agents. \<not> isSettled (agents ! j) \<and> isSettled (agents' ! j) \<longrightarrow>
         Finished (ag_task (agents ! j)) \<in> set h"
    using s by (auto simp: runSpec_def)
  from rs have sound': "\<forall>a\<in>set agents'. sound a" and tasks': "map ag_task agents' = ts"
    and ended: "rejection agents' \<noteq> None \<or> pending agents' = []"
    using s by (simp_all add: runSpec_def)
  have len: "length agents' = length agents" using tasks' s by (metis length_map)
  have "map r_taskId rs = map st_id ts \<and> set h = Finished ` set ts" if o: "out = Inr rs" for rs
  proof -
    from o out collect_Inr[of agents' rs] have rej: "rejection agents' = None" "rs = outcomes agents'"
      by simp_all
    with ended have p: "pending agents' = []" by simp
    have "Finished t \<in> set h" if "t \<in> set ts" for t
    proof -
      from that s obtain j where j: "j < length agents" "ag_task (agents ! j) = t"
        by (metis in_set_conv_nth length_map nth_map)
      with s have "\<not> isSettled (agents ! j)" by simp
      moreover have "isSettled (agents' ! j)" using p j(1) len
        by (simp add: pending_Nil all_set_conv_all_nth)
      ultimately show ?thesis using h(3) j by auto
    qed
    with h(2) have seth: "set h = Finished ` set ts" by auto
    have "map (\<lambda>a. st_id (ag_task a)) agents' = map st_id (map ag_task agents')"
      by simp
    with collect_settled[OF sound' p rej(1)] rej(2) tasks' seth show ?thesis by simp
  qed
  with h(1,2) s show ?thesis by auto
qed

lemma execute_spec:
  assumes "execute env sa t w = Some (out, w')"
  shows "\<exists>h. history w' = history w @ Started t # h \<and> set h \<subseteq> {Finished t}
           \<and> (\<forall>rs. out = Inr rs \<longrightarrow> (\<exists>r. rs = [r] \<and> r_taskId r = st_id t))"
proof -
  have "executeParallel env sa [t] w = Some (out, w')"
    using assms by (simp add: executeParallel_def execute_def split_beta)
  from executeParallel_spec[OF this] show ?thesis by auto
qed

lemma executeSequential_spec:
  "executeSequential env sa ts w = Some (out, w') \<Longrightarrow>
     \<exists>h. history w' = history w @ h \<and> set h \<subseteq> Started ` set ts \<union> Finished ` set ts
        \<and> (\<forall>rs. out = Inr rs \<longrightarrow> map r_taskId rs = map st_id ts)"
proof (induction ts arbitrary: w out w')
  case Nil
  then show ?case by auto
next
  case (Cons t ts)
  from Cons.prems obtain o1 w1 where e: "execute env sa t w = Some (o1, w1)"
    by (auto split: option.splits)
  from execute_spec[OF e] obtain h1 where r: "history w1 = history w @ Started t # h1"
    "set h1 \<subseteq> {Finished t}" "\<forall>rs. o1 = Inr rs \<longrightarrow> (\<exists>r. rs = [r] \<and> r_taskId r = st_id t)"
    by blast
  show ?case
  proof (cases o1)
    case (Inl e1)
    with Cons.prems e have "out = Inl e1" "w' = w1" by simp_all
    moreover have "set (Started t # h1) \<subseteq> Started ` set (t # ts) \<union> Finished ` set (t # ts)"
      using r(2) by auto
    ultimately show ?thesis using r(1) by (intro exI[of _ "Started t # h1"]) simp
  next
    case (Inr rs1)
    with r(3) obtain r1 where r1: "rs1 = [r1]" "r_taskId r1 = st_id t" by blast
    from Cons.prems e Inr obtain o2 where s: "executeSequential env sa ts w1 = Some (o2, w')"
      by (auto split: option.splits sum.splits)
    from Cons.IH[OF s] obtain h2 where rs: "history w' = history w1 @ h2"
      "set h2 \<subseteq> Started ` set ts \<union> Finished ` set ts"
      "\<forall>rs. o2 = Inr rs \<longrightarrow> map r_taskId rs = map st_id ts" by blast
    have "history w' = history w @ (Started t # h1 @ h2)" using r(1) rs(1) by simp
    moreover have "set (Started t # h1 @ h2) \<subseteq> Started ` set (t # ts) \<union> Finished ` set (t # ts)"
      using r(2) rs(2) by auto
    moreover have "map r_taskId rs' = map st_id (t # ts)" if "out = Inr rs'" for rs'
    proof (cases o2)
      case (Inl e2)
      with Cons.prems e Inr s that show ?thesis by simp
    next
      case o2: (Inr rs2)
      with Cons.prems e Inr s that have "rs' = rs1 @ rs2" by simp
      with r1 rs(3) o2 show ?thesis by simp
    qed
    ultimately show ?thesis by (intro exI[of _ "Started t # h1 @ h2"]) simp
  qed
qed

section \<open>Waiting for availability without end\<close>

lemma isRateLimited_config [simp]:
  "config (accounts (snd (isRateLimited a now m)) b) = config (accounts m b)"
  by (simp add: isRateLimited_def Let_def)












section \<open>Termination with a positive rate limit\<close>

text \<open>No operation changes the configuration of an account.\<close>

lemma config_limitedAndNot [simp]:
  "config (accounts (snd (limitedAndNot a b now m)) c) = config (accounts m c)"
  by (simp add: limitedAndNot_def split_beta)

lemma config_selectAccount [simp]:
  "config (accounts (snd (selectAccount now m)) c) = config (accounts m c)"
  by (cases "strategy m")
     (simp_all add: selectAccount_def selectRoundRobin_def selectLeastLoaded_def
        selectCostOptimized_def split_beta)

lemma config_getClient [simp]:
  "config (accounts (snd (getClient k now m)) c) = config (accounts m c)"
  by (cases k) (simp_all add: getClient_def split_beta trackRequest_def)

lemma config_completeRequest [simp]:
  "config (accounts (completeRequest a tk c m) b) = config (accounts m b)"
  by (simp add: completeRequest_def Let_def)

lemma config_bothRateLimited [simp]:
  "config (accounts (snd (bothRateLimited now m)) c) = config (accounts m c)"
  by (simp add: bothRateLimited_def split_beta)

lemma sameConfig_refl [simp]: "sameConfig w w"
  by (simp add: sameConfig_def)

lemma sameConfig_trans: "sameConfig w w1 \<Longrightarrow> sameConfig w1 w2 \<Longrightarrow> sameConfig w w2"
  by (simp add: sameConfig_def)

lemma sameConfig_poll: "sameConfig w (snd (poll a w))"
  by (simp add: sameConfig_def poll_def split_beta)

lemma am_stmtRun [simp]: "am (snd (stmtRun env ev w)) = am w"
  by (simp add: stmtRun_def Let_def split: option.splits)

lemma am_saveAgent [simp]: "am (snd (saveAgent env i ty p k s tk c w)) = am w"
  by (simp add: saveAgent_def)

lemma am_saveConversation [simp]:
  "am (snd (saveConversation env i s sub k r c ts tk co w)) = am w"
  by (simp add: saveConversation_def)

lemma am_saveDocument [simp]: "am (snd (saveDocument env i c ty ti co f t tags w)) = am w"
  by (simp add: saveDocument_def)

lemma am_updateAgentStatus [simp]: "am (snd (updateAgentStatus env i s r w)) = am w"
  by (simp add: updateAgentStatus_def Let_def)

lemma am_executeCatch:
  "am (snd (executeCatch env a k e w)) = am w
   \<or> am (snd (executeCatch env a k e w)) = completeRequest k 0 0 (am w)"
  by (simp add: executeCatch_def Let_def split_beta split: option.splits)

lemma config_executeCatch [simp]:
  "config (accounts (am (snd (executeCatch env a k e w))) c) = config (accounts (am w) c)"
  using am_executeCatch[of env a k e w] by auto

lemma sameConfig_executeCatch: "sameConfig w (snd (executeCatch env a k e w))"
  by (simp add: sameConfig_def)

lemma sameConfig_settle: "sameConfig w (snd (settle a out w))"
  by (simp add: sameConfig_def settle_def)

lemma am_settle [simp]: "am (snd (settle a out w)) = am w"
  by (simp add: settle_def)

lemma am_fresh [simp]: "am (snd (fresh env w)) = am w"
  by (simp add: fresh_def)

lemma sameConfig_executeSend: "sameConfig w (snd (executeSend env a w))"
  by (simp add: sameConfig_def executeSend_def Let_def split_beta
      split: sum.splits option.splits)

lemma sameConfig_executeReceive: "sameConfig w (snd (executeReceive env a k n w))"
  by (simp add: sameConfig_def executeReceive_def Let_def split_beta
      split: chatOutcome.splits option.splits)

lemma sameConfig_workerStep: "sameConfig w (snd (workerStep env a (suspend env w)))"
proof -
  have "sameConfig (suspend env w) (snd (workerStep env a (suspend env w)))"
    using sameConfig_poll[of "(suspend env w)\<lparr>clock := max (clock (suspend env w)) (t + 1000)\<rparr>" a for t]
    by (cases "phase a")
       (simp_all add: workerStep_def sameConfig_executeSend sameConfig_executeReceive,
        simp add: sameConfig_def)
  then show ?thesis by (simp add: sameConfig_def)
qed

lemma sameConfig_spawnSubAgent: "sameConfig w (snd (spawnSubAgent env sa t w))"
  by (simp add: sameConfig_def spawnSubAgent_def poll_def split_beta fresh_def)

lemma sameConfig_spawnAll: "sameConfig w (snd (spawnAll env sa ts w))"
proof (induction ts arbitrary: w)
  case Nil
  then show ?case by simp
next
  case (Cons t ts)
  from sameConfig_trans[OF sameConfig_spawnSubAgent[of w env sa t] Cons[of "snd (spawnSubAgent env sa t w)"]]
  show ?case by (simp add: split_beta)
qed

lemma sameConfig_runWorkers:
  assumes "runWorkers env agents w = Some y"
  shows "sameConfig w (snd y)"
  using assms
proof (induct rule: runWorkers_induct)
  case (stop agents w)
  show ?case by simp
next
  case (step agents w y i a' w2)
  from sameConfig_workerStep[of w env "agents ! i"] step(4) have "sameConfig w w2" by simp
  then show ?case using step(5) by (rule sameConfig_trans)
qed


lemma foldr_max_ge: "x \<in> set xs \<Longrightarrow> x \<le> foldr max xs (0::int)"
  by (induction xs) auto

lemma foldr_max_filter: "foldr max (filter P xs) (0::int) \<le> foldr max xs 0"
  by (induction xs) auto

lemma rank_mono: "h' \<le> h \<Longrightarrow> rank h' a \<le> rank h a"
  by (cases "phase a") (simp_all add: rank_def)

lemma sum_list_update_less:
  fixes f g :: "'a \<Rightarrow> nat"
  assumes "i < length xs" "g y < f (xs ! i)" "\<forall>x\<in>set xs. g x \<le> f x"
  shows "sum_list (map g (xs[i := y])) < sum_list (map f xs)"
  using assms
proof (induction xs arbitrary: i)
  case Nil
  then show ?case by simp
next
  case (Cons x xs)
  show ?case
  proof (cases i)
    case 0
    have "sum_list (map g xs) \<le> sum_list (map f xs)"
      using Cons.prems(3) by (simp add: sum_list_mono)
    with 0 Cons.prems(2) show ?thesis by simp
  next
    case (Suc j)
    with Cons.prems have "sum_list (map g (xs[j := y])) < sum_list (map f xs)"
      by (intro Cons.IH) simp_all
    moreover have "g x \<le> f x" using Cons.prems(3) by simp
    ultimately show ?thesis using Suc by simp
  qed
qed

lemma sum_list_update_same:
  fixes f :: "'a \<Rightarrow> nat"
  assumes "i < length xs" "f y = f (xs ! i)"
  shows "sum_list (map f (xs[i := y])) = sum_list (map f xs)"
proof -
  have "map f (xs[i := y]) = (map f xs)[i := f (xs ! i)]"
    using assms by (simp add: map_update)
  also have "\<dots> = map f xs" using assms(1) by (simp add: list_update_same_conv)
  finally show ?thesis by simp
qed

text \<open>A timestamp window and the answer of the poll.\<close>

lemma timestamps_isRateLimited:
  "requestTimestamps (accounts (snd (isRateLimited a now m)) b) =
     (if b = a then filter (\<lambda>ts. ts > now - 60000) (requestTimestamps (accounts m b))
      else requestTimestamps (accounts m b))"
  by (simp add: isRateLimited_def Let_def)

lemma horizon_bothRateLimited:
  "horizon k (snd (bothRateLimited now m)) \<le> horizon k m"
  by (simp add: horizon_def bothRateLimited_def split_beta timestamps_isRateLimited
      foldr_max_filter)

lemma limited_horizon:
  assumes "fst (isRateLimited k now m)" "0 < rateLimit (config (accounts m k))"
  shows "now < foldr max (requestTimestamps (accounts (snd (isRateLimited k now m)) k)) 0 + 60000"
proof -
  let ?kept = "filter (\<lambda>ts. ts > now - 60000) (requestTimestamps (accounts m k))"
  from assms have "?kept \<noteq> []" by (auto simp: isRateLimited_def Let_def)
  then obtain ts where ts: "ts \<in> set ?kept" by (cases ?kept) auto
  then have "now - 60000 < ts" by simp
  moreover have "ts \<le> foldr max ?kept 0" using ts by (rule foldr_max_ge)
  ultimately show ?thesis by (simp add: timestamps_isRateLimited)
qed

lemma bothRateLimited_horizon:
  assumes "fst (bothRateLimited now m)" "0 < rateLimit (config (accounts m k))"
  shows "now < horizon k (snd (bothRateLimited now m))"
proof -
  let ?m1 = "snd (isRateLimited Account1 now m)"
  from assms(1) have l1: "fst (isRateLimited Account1 now m)"
    and l2: "fst (isRateLimited Account2 now ?m1)"
    and m: "snd (bothRateLimited now m) = snd (isRateLimited Account2 now ?m1)"
    by (auto simp: bothRateLimited_def split_beta split: if_splits)
  show ?thesis
  proof (cases k)
    case Account1
    with limited_horizon[OF l1] assms(2)
    show ?thesis by (simp add: horizon_def m timestamps_isRateLimited)
  next
    case Account2
    with limited_horizon[OF l2] assms(2)
    show ?thesis by (simp add: horizon_def m)
  qed
qed


lemma horizon_completeRequest [simp]: "horizon k (completeRequest a tk c m) = horizon k m"
  by (simp add: horizon_def completeRequest_def Let_def)

lemma horizon_executeCatch [simp]:
  "horizon k' (am (snd (executeCatch env a k e w))) = horizon k' (am w)"
  using am_executeCatch[of env a k e w] by auto

lemma executeSend_sent: "unsent (fst (executeSend env a w)) = 0"
  by (simp add: executeSend_def Let_def split_beta settle_def unsent_def
      split: sum.splits option.splits)

lemma executeReceive_settled:
  "(\<exists>out. phase (fst (executeReceive env a k n w)) = Settled out)
   \<and> horizon k' (am (snd (executeReceive env a k n w))) = horizon k' (am w)"
  by (cases "chat env n")
     (simp_all add: executeReceive_def Let_def split_beta settle_def
        split: option.splits)

lemma workerStep_progress:
  assumes i: "i < length agents"
    and pos: "0 < rateLimit (config (accounts (am w) k))"
    and step: "workerStep env (agents ! i) (suspend env w) = (a', w2)"
    and unsettled: "\<not> isSettled (agents ! i)"
  shows "(progress k (agents[i := a'], w2), progress k (agents, w)) \<in> less_than <*lex*> less_than"
proof (cases "phase (agents ! i)")
  case (Sleeping t)
  let ?w1 = "(suspend env w)\<lparr>clock := max (clock (suspend env w)) (t + 1000)\<rparr>"
  let ?now = "clock ?w1"
  let ?b = "bothRateLimited ?now (am w)"
  from step Sleeping have a': "a' = (agents ! i)\<lparr>phase := (if fst ?b then Sleeping ?now else Resumable)\<rparr>"
    and w2: "am w2 = snd ?b"
    by (auto simp: workerStep_def poll_def split_beta)
  have u: "unsent a' = unsent (agents ! i)" using a' Sleeping by (simp add: unsent_def)
  have h: "horizon k (am w2) \<le> horizon k (am w)" using w2 by (simp add: horizon_bothRateLimited)
  have r: "rank (horizon k (am w2)) a' < rank (horizon k (am w)) (agents ! i)"
  proof (cases "fst ?b")
    case True
    from bothRateLimited_horizon[OF True pos] w2 have "?now < horizon k (am w2)" by simp
    moreover have "t < ?now" by simp
    ultimately show ?thesis using a' True Sleeping h by (simp add: rank_def)
  next
    case False
    with a' Sleeping show ?thesis by (simp add: rank_def)
  qed
  have "sum_list (map (rank (horizon k (am w2))) (agents[i := a']))
          < sum_list (map (rank (horizon k (am w))) agents)"
    using i r h by (intro sum_list_update_less) (simp_all add: rank_mono)
  moreover have "sum_list (map unsent (agents[i := a'])) = sum_list (map unsent agents)"
    using i u by (rule sum_list_update_same)
  ultimately show ?thesis by (simp add: progress_def)
next
  case Resumable
  with step have "a' = fst (executeSend env (agents ! i) (suspend env w))"
    by (simp add: workerStep_def)
  then have "unsent a' = 0" by (simp add: executeSend_sent)
  moreover have "unsent (agents ! i) = 1" using Resumable by (simp add: unsent_def)
  ultimately have "sum_list (map unsent (agents[i := a'])) < sum_list (map unsent agents)"
    using i by (intro sum_list_update_less) simp_all
  then show ?thesis by (simp add: progress_def)
next
  case (InFlight k' n)
  with step have e: "executeReceive env (agents ! i) k' n (suspend env w) = (a', w2)"
    by (simp add: workerStep_def)
  from executeReceive_settled[of env "agents ! i" k' n "suspend env w" k] e
  obtain out where s: "phase a' = Settled out" "horizon k (am w2) = horizon k (am w)"
    by auto
  have "sum_list (map unsent (agents[i := a'])) = sum_list (map unsent agents)"
    using i s(1) InFlight by (intro sum_list_update_same) (simp_all add: unsent_def)
  moreover have "sum_list (map (rank (horizon k (am w2))) (agents[i := a']))
          < sum_list (map (rank (horizon k (am w))) agents)"
    using i s InFlight by (intro sum_list_update_less) (simp_all add: rank_def)
  ultimately show ?thesis by (simp add: progress_def)
next
  case (Settled out)
  with unsettled show ?thesis by (simp add: isSettled_def)
qed

lemma runWorkers_unfold:
  "runWorkers env agents w =
     (if rejection agents \<noteq> None \<or> pending agents = [] then Some (agents, w)
      else runWorkers env
             (agents[pending agents ! (pick env (suspensions w) mod length (pending agents))
                := fst (workerStep env
                     (agents ! (pending agents ! (pick env (suspensions w) mod length (pending agents))))
                     (suspend env w))])
             (snd (workerStep env
                     (agents ! (pending agents ! (pick env (suspensions w) mod length (pending agents))))
                     (suspend env w))))"
  by (subst runWorkers.simps) (simp add: Let_def split_beta)

lemma runWorkers_terminates:
  assumes "0 < rateLimit (config (accounts (am w) k))"
  shows "\<exists>y. runWorkers env agents w = Some y"
proof -
  have "wf (inv_image (less_than <*lex*> less_than) (progress k))"
    by (intro wf_inv_image wf_lex_prod wf_less_than)
  then have "0 < rateLimit (config (accounts (am (snd x)) k)) \<longrightarrow>
             (\<exists>y. runWorkers env (fst x) (snd x) = Some y)" for x
  proof (induct x rule: wf_induct_rule)
    case (less x)
    obtain agents w where x: "x = (agents, w)" by (cases x)
    show ?case
    proof
      assume pos: "0 < rateLimit (config (accounts (am (snd x)) k))"
      show "\<exists>y. runWorkers env (fst x) (snd x) = Some y"
      proof (cases "rejection agents \<noteq> None \<or> pending agents = []")
        case True
        then show ?thesis using x by (subst runWorkers_unfold) simp
      next
        case False
        let ?i = "pending agents ! (pick env (suspensions w) mod length (pending agents))"
        let ?s = "workerStep env (agents ! ?i) (suspend env w)"
        from False have i: "?i < length agents" "\<not> isSettled (agents ! ?i)"
          using pending_pick[of agents] by simp_all
        have "(progress k (agents[?i := fst ?s], snd ?s), progress k (agents, w))
                \<in> less_than <*lex*> less_than"
          using pos x by (intro workerStep_progress i) simp_all
        then have "((agents[?i := fst ?s], snd ?s), x)
                     \<in> inv_image (less_than <*lex*> less_than) (progress k)"
          using x by simp
        moreover have "0 < rateLimit (config (accounts (am (snd ?s)) k))"
          using sameConfig_workerStep[of w env "agents ! ?i"] pos x by (simp add: sameConfig_def)
        ultimately have "\<exists>y. runWorkers env (agents[?i := fst ?s]) (snd ?s) = Some y"
          using less[of "(agents[?i := fst ?s], snd ?s)"] by simp
        then show ?thesis using False x by (subst runWorkers_unfold) simp
      qed
    qed
  qed
  from this[of "(agents, w)"] assms show ?thesis by simp
qed

text \<open>
  With a positive requests-per-minute limit on one account every run of workers ends:
  a recorded request leaves the window after a minute, a sleeping worker polls again
  after a second, and every worker records one request only.
\<close>

lemma executeParallel_returns:
  assumes "0 < rateLimit (config (accounts (am w) k))"
  shows "\<exists>out w'. executeParallel env sa ts w = Some (out, w') \<and> sameConfig w w'"
proof -
  obtain agents w1 where sp: "spawnAll env sa ts w = (agents, w1)" by (cases "spawnAll env sa ts w")
  with sameConfig_spawnAll[of w env sa ts] have c1: "sameConfig w w1" by simp
  with assms have "0 < rateLimit (config (accounts (am w1) k))" by (simp add: sameConfig_def)
  from runWorkers_terminates[OF this] obtain agents' w' where
    run: "runWorkers env agents w1 = Some (agents', w')" by fastforce
  from sameConfig_runWorkers[OF run] c1 have c: "sameConfig w w'"
    using sameConfig_trans by fastforce
  from sp run have e: "executeParallel env sa ts w = Some (collect agents', w')"
    by (simp add: executeParallel_def)
  with c show ?thesis by auto
qed

lemma execute_returns:
  assumes "0 < rateLimit (config (accounts (am w) k))"
  shows "\<exists>out w'. execute env sa t w = Some (out, w') \<and> sameConfig w w'"
  using executeParallel_returns[OF assms, of env sa "[t]"]
  by (simp add: executeParallel_def execute_def split_beta)

lemma executeSequential_returns:
  "0 < rateLimit (config (accounts (am w) k)) \<Longrightarrow>
     \<exists>out w'. executeSequential env sa ts w = Some (out, w') \<and> sameConfig w w'"
proof (induction ts arbitrary: w)
  case Nil
  then show ?case by simp
next
  case (Cons t ts)
  from execute_returns[OF Cons.prems] obtain o1 w1 where
    e: "execute env sa t w = Some (o1, w1)" "sameConfig w w1" by blast
  show ?case
  proof (cases o1)
    case (Inl e1)
    with e show ?thesis by auto
  next
    case (Inr r)
    from e Cons.prems have "0 < rateLimit (config (accounts (am w1) k))"
      by (simp add: sameConfig_def)
    from Cons.IH[OF this] obtain o2 w' where
      s: "executeSequential env sa ts w1 = Some (o2, w')" "sameConfig w1 w'" by blast
    from e(2) s(2) have "sameConfig w w'" by (rule sameConfig_trans)
    with e(1) s(1) Inr show ?thesis by (cases o2) auto
  qed
qed

lemma executeAdaptive_returns:
  assumes "0 < rateLimit (config (accounts (am w) k))"
  shows "\<exists>out w'. executeAdaptive env sa ts w = Some (out, w') \<and> sameConfig w w'"
proof -
  let ?S = "filter (\<lambda>t. st_complexity t = JStr ''simple'') ts"
  let ?C = "filter (\<lambda>t. st_complexity t \<noteq> JStr ''simple'') ts"
  from executeParallel_returns[OF assms, of env sa ?S] obtain o1 w1 where
    p: "executeParallel env sa ?S w = Some (o1, w1)" "sameConfig w w1" by blast
  show ?thesis
  proof (cases o1)
    case (Inl e1)
    with p show ?thesis by (auto simp: executeAdaptive_def Let_def)
  next
    case (Inr rs1)
    from p assms have "0 < rateLimit (config (accounts (am w1) k))"
      by (simp add: sameConfig_def)
    from executeSequential_returns[OF this, of env sa ?C] obtain o2 w2 where
      s: "executeSequential env sa ?C w1 = Some (o2, w2)" "sameConfig w1 w2" by blast
    from p(2) s(2) have "sameConfig w w2" by (rule sameConfig_trans)
    with p(1) s(1) Inr show ?thesis by (cases o2) (auto simp: executeAdaptive_def Let_def)
  qed
qed



section \<open>Failure handling at the boundaries\<close>

text \<open>
  A worker whose call to the transport fails: when the status update of the
  \<open>catch\<close> block does not throw, the worker completes the request on the
  acquired account with zero tokens and zero cost and its promise resolves to a
  failed result that carries the message of the error.
\<close>

lemma executeReceive_failure:
  assumes "chat env n = ChatFails error"
    and "updateAgentStatus env (ag_id a) ''failed'' (Some (errorMessage error)) w = (None, w1)"
  shows "executeReceive env a accountId n w =
     (a\<lparr>phase := Settled (Inr \<lparr>r_taskId = st_id (ag_task a), r_success = False, r_result = [],
                              r_tokensUsed = 0, r_cost = 0, r_account = accountId,
                              r_duration = clock w1 - startTime a,
                              r_error = Some (errorMessage error)\<rparr>)\<rparr>,
      w1\<lparr>am := completeRequest accountId 0 0 (am w1),
         activeSubAgents := deleteKey (st_id (ag_task a)) (activeSubAgents w1),
         history := history w1 @ [Finished (ag_task a)]\<rparr>)"
  using assms
  by (simp add: executeReceive_def executeCatch_def settle_def Let_def)

lemma aggregateResults_fallback_text:
  "chat env (length (sent w)) = ChatFails e \<Longrightarrow>
     fst (aggregateResults env sa t rs w) =
       Inr (join ''

'' (map (\<lambda>(i, r). ''
### Sub-Task '' @ showNat (i + 1) @ ''
**Task:** '' @ r_taskId r @ ''
**Success:** '' @ showBool (r_success r) @ ''
**Result:**
'' @ r_result r @ ''
    '') (zip [0..<length rs] rs)))"
  by (simp add: aggregateResults_def Let_def split_beta subResultsText_def subResultBlock_def)

lemma subResultsText_block_text:
  fixes rs :: "subAgentResult list"
  assumes "i < length rs"
  shows "\<exists>pre post.
     join ''

'' (map (\<lambda>(i, r). ''
### Sub-Task '' @ showNat (i + 1) @ ''
**Task:** '' @ r_taskId r @ ''
**Success:** '' @ showBool (r_success r) @ ''
**Result:**
'' @ r_result r @ ''
    '') (zip [0..<length rs] rs))
     = pre @ (''
### Sub-Task '' @ showNat (i + 1) @ ''
**Task:** '' @ r_taskId (rs ! i) @ ''
**Success:** '' @ showBool (r_success (rs ! i)) @ ''
**Result:**
'' @ r_result (rs ! i) @ ''
    '') @ post"
  using subResultsText_block[OF assms]
  unfolding subResultsText_def subResultBlock_def by simp

text \<open>
  Claim C9.  If the synthesis call to the transport fails, \<open>aggregateResults\<close>
  returns the concatenation of the blocks of all worker results, in their order and
  separated by an empty line, the block of the result at position \<open>i\<close> being
  labelled \<open>Sub-Task i+1\<close> and with the sub-task identifier and holding the
  success flag and the raw text of the result; \<open>aggregateResults\<close> never throws;
  and when the workers of a task have returned, the synthesis call fails and the
  statements that record the final result do not throw, \<open>executeTask\<close> returns a
  successful TaskResult whose text is that concatenation.
\<close>

theorem C9_synthesis_fallback:
  "let block = (\<lambda>i r. ''
### Sub-Task '' @ showNat (i + 1) @ ''
**Task:** '' @ r_taskId r @ ''
**Success:** '' @ showBool (r_success r) @ ''
**Result:**
'' @ r_result r @ ''
    '');
       concatenation = join ''

'' (map (\<lambda>(i, r). block i r) (zip [0..<length rs] rs))
   in (chat env (length (sent w)) = ChatFails e \<longrightarrow>
         fst (aggregateResults env sa t rs w) = Inr concatenation)
    \<and> (\<forall>e'. fst (aggregateResults env sa t rs w) \<noteq> Inl e')
    \<and> (\<forall>i<length rs. \<exists>pre post. concatenation = pre @ block i (rs ! i) @ post)
    \<and> (\<forall>w1 sts w2 w3 w5.
          saveTask env sa t w0 = (None, w1) \<longrightarrow>
          decomposeTask env sa t w1 = (Inr sts, w2) \<longrightarrow>
          executeByStrategy env sa sts w2 = Some (Inr rs, w3) \<longrightarrow>
          chat env (length (sent w3)) = ChatFails e \<longrightarrow>
          saveFinalResult env sa t concatenation (sum_list (map r_tokensUsed rs))
            (sum_list (map r_cost rs)) (snd (aggregateResults env sa t rs w3)) = (None, w5) \<longrightarrow>
          (\<exists>r. executeTask env sa t w0 = Some (Inr r, w5) \<and> tr_success r
                \<and> tr_result r = concatenation \<and> tr_subResults r = rs))"
  unfolding Let_def
proof (intro conjI allI impI)
  let ?text = "join ''

'' (map (\<lambda>(i, r). ''
### Sub-Task '' @ showNat (i + 1) @ ''
**Task:** '' @ r_taskId r @ ''
**Success:** '' @ showBool (r_success r) @ ''
**Result:**
'' @ r_result r @ ''
    '') (zip [0..<length rs] rs))"
  show "fst (aggregateResults env sa t rs w) = Inr ?text"
    if "chat env (length (sent w)) = ChatFails e"
    using that by (rule aggregateResults_fallback_text)
  show "fst (aggregateResults env sa t rs w) \<noteq> Inl e'" for e'
    using aggregateResults_returns[of env sa t rs w] by auto
  show "\<exists>pre post. ?text = pre @ (''
### Sub-Task '' @ showNat (i + 1) @ ''
**Task:** '' @ r_taskId (rs ! i) @ ''
**Success:** '' @ showBool (r_success (rs ! i)) @ ''
**Result:**
'' @ r_result (rs ! i) @ ''
    '') @ post"
    if "i < length rs" for i
    using that by (rule subResultsText_block_text)
  show "\<exists>r. executeTask env sa t w0 = Some (Inr r, w5) \<and> tr_success r
                \<and> tr_result r = ?text \<and> tr_subResults r = rs"
    if s: "saveTask env sa t w0 = (None, w1)"
      and d: "decomposeTask env sa t w1 = (Inr sts, w2)"
      and x: "executeByStrategy env sa sts w2 = Some (Inr rs, w3)"
      and c: "chat env (length (sent w3)) = ChatFails e"
      and f: "saveFinalResult env sa t ?text (sum_list (map r_tokensUsed rs))
            (sum_list (map r_cost rs)) (snd (aggregateResults env sa t rs w3)) = (None, w5)"
    for w1 sts w2 w3 w5
  proof -
    from aggregateResults_fallback_text[OF c, of sa t rs]
    have a: "aggregateResults env sa t rs w3 = (Inr ?text, snd (aggregateResults env sa t rs w3))"
      by (cases "aggregateResults env sa t rs w3") simp
    from executeTask_completes[OF s d x a f] show ?thesis by simp
  qed
qed



text \<open>
  Claim C10.  With a positive requests-per-minute limit on one account,
  \<open>executeAdaptive\<close> comes to an end.  Whenever it does, by returning or by
  throwing, the starts and ends of workers during the call split into a first part,
  in which only workers of sub-tasks of complexity \<open>'simple'\<close> start and end, and
  a second part with the workers of the other sub-tasks; if any worker of the
  second part has started, every worker of a simple sub-task has ended in the first
  part: no worker of a non-simple sub-task starts before every worker of a simple
  sub-task has ended.  When it returns, every worker of a simple sub-task has ended
  in the first part, and the results are those of the simple sub-tasks in
  decomposition order followed by those of the other sub-tasks in decomposition
  order.
\<close>

theorem C10_adaptive_order:
  "(0 < rateLimit (config (accounts (am w) k)) \<longrightarrow>
      (\<exists>out w'. executeAdaptive env sa subTasks w = Some (out, w')))
   \<and> (\<forall>out w'. executeAdaptive env sa subTasks w = Some (out, w') \<longrightarrow>
        (\<exists>h1 h2.
           history w' = history w @ h1 @ h2
         \<and> set h1 \<subseteq> {e. \<exists>t\<in>set subTasks. st_complexity t = JStr ''simple''
                            \<and> (e = Started t \<or> e = Finished t)}
         \<and> set h2 \<subseteq> {e. \<exists>t\<in>set subTasks. st_complexity t \<noteq> JStr ''simple''
                            \<and> (e = Started t \<or> e = Finished t)}
         \<and> (h2 \<noteq> [] \<longrightarrow>
              (\<forall>t\<in>set subTasks. st_complexity t = JStr ''simple'' \<longrightarrow> Finished t \<in> set h1))
         \<and> (\<forall>results. out = Inr results \<longrightarrow>
              (\<forall>t\<in>set subTasks. st_complexity t = JStr ''simple'' \<longrightarrow> Finished t \<in> set h1)
              \<and> map r_taskId results =
                  map st_id (filter (\<lambda>t. st_complexity t = JStr ''simple'') subTasks)
                  @ map st_id (filter (\<lambda>t. st_complexity t \<noteq> JStr ''simple'') subTasks))))"
proof (intro conjI allI impI)
  show "\<exists>out w'. executeAdaptive env sa subTasks w = Some (out, w')"
    if "0 < rateLimit (config (accounts (am w) k))"
    using executeAdaptive_returns[OF that, of env sa subTasks] by blast
next
  fix out w'
  assume run: "executeAdaptive env sa subTasks w = Some (out, w')"
  let ?S = "filter (\<lambda>t. st_complexity t = JStr ''simple'') subTasks"
  let ?C = "filter (\<lambda>t. st_complexity t \<noteq> JStr ''simple'') subTasks"
  let ?simple = "{e. \<exists>t\<in>set subTasks. st_complexity t = JStr ''simple''
                            \<and> (e = Started t \<or> e = Finished t)}"
  let ?other = "{e. \<exists>t\<in>set subTasks. st_complexity t \<noteq> JStr ''simple''
                            \<and> (e = Started t \<or> e = Finished t)}"
  from run obtain o1 w1 where p: "executeParallel env sa ?S w = Some (o1, w1)"
    by (auto simp: executeAdaptive_def Let_def split: option.splits)
  from executeParallel_spec[OF p] obtain h where 1:
    "history w1 = history w @ map Started ?S @ h" "set h \<subseteq> Finished ` set ?S"
    "\<forall>rs. o1 = Inr rs \<longrightarrow> map r_taskId rs = map st_id ?S \<and> set h = Finished ` set ?S"
    by blast
  have s1: "set (map Started ?S @ h) \<subseteq> ?simple" using 1(2) by auto
  show "\<exists>h1 h2.
           history w' = history w @ h1 @ h2
         \<and> set h1 \<subseteq> ?simple \<and> set h2 \<subseteq> ?other
         \<and> (h2 \<noteq> [] \<longrightarrow>
              (\<forall>t\<in>set subTasks. st_complexity t = JStr ''simple'' \<longrightarrow> Finished t \<in> set h1))
         \<and> (\<forall>results. out = Inr results \<longrightarrow>
              (\<forall>t\<in>set subTasks. st_complexity t = JStr ''simple'' \<longrightarrow> Finished t \<in> set h1)
              \<and> map r_taskId results = map st_id ?S @ map st_id ?C)"
  proof (cases o1)
    case (Inl e1)
    with run p have "out = Inl e1" "w' = w1" by (simp_all add: executeAdaptive_def Let_def)
    with 1(1) s1 show ?thesis
      by (intro exI[of _ "map Started ?S @ h"] exI[of _ "[]"]) simp
  next
    case (Inr rs1)
    with 1(3) have r1: "map r_taskId rs1 = map st_id ?S" "set h = Finished ` set ?S" by simp_all
    from run p Inr obtain o2 where s: "executeSequential env sa ?C w1 = Some (o2, w')"
      by (auto simp: executeAdaptive_def Let_def split: option.splits sum.splits)
    from executeSequential_spec[OF s] obtain h2 where 2:
      "history w' = history w1 @ h2" "set h2 \<subseteq> Started ` set ?C \<union> Finished ` set ?C"
      "\<forall>rs. o2 = Inr rs \<longrightarrow> map r_taskId rs = map st_id ?C" by blast
    have a: "history w' = history w @ (map Started ?S @ h) @ h2" using 1(1) 2(1) by simp
    have b: "set h2 \<subseteq> ?other" using 2(2) by auto
    have c: "\<forall>t\<in>set subTasks. st_complexity t = JStr ''simple'' \<longrightarrow>
               Finished t \<in> set (map Started ?S @ h)"
      using r1(2) by auto
    have d: "map r_taskId results = map st_id ?S @ map st_id ?C" if "out = Inr results" for results
    proof (cases o2)
      case (Inl e2)
      with run p Inr s that show ?thesis by (simp add: executeAdaptive_def Let_def)
    next
      case o2: (Inr rs2)
      with run p Inr s that have "results = rs1 @ rs2" by (simp add: executeAdaptive_def Let_def)
      with r1(1) 2(3) o2 show ?thesis by simp
    qed
    from a s1 b c d show ?thesis
      by (intro exI[of _ "map Started ?S @ h"] exI[of _ h2]) simp
  qed
qed

section \<open>Concrete runs\<close>

text \<open>
  The runs evaluated: what decomposition returns and what the workers return.  In
  the answered run the worker of the first sub-task sends its request first and the
  worker of the third sub-task ends first, and the results are still in
  decomposition order within each partition.
\<close>

lemmas eval_defs = run_defs am_defs runWorkers.simps fallbackSubTask_def threeEntries_neq
  noDescription_neq synthesisFailingEnv_def brokenDbEnv_def mod_Suc

lemma saveTask_unsaved: "saveTask env (exampleSuperAgent bound strat) t w = (None, w)"
  by (simp add: saveTask_def exampleSuperAgent_def)



lemma answeredRun_decompose:
  "decomposeTask answeringEnv (exampleSuperAgent 5 Adaptive) exampleTask (exampleWorld 60)
   = (Inr threeSubTasks, afterDecomposition)"
proof -
  have "fst (decomposeTask answeringEnv (exampleSuperAgent 5 Adaptive) exampleTask
     (exampleWorld 60)) = Inr threeSubTasks"
    by (simp add: eval_defs threeSubTasks_def)
  then show ?thesis
    unfolding afterDecomposition_def by (metis prod.collapse)
qed

lemma answeredRun_workers:
  "\<exists>w3. executeAdaptive answeringEnv (exampleSuperAgent 5 Adaptive) threeSubTasks
           afterDecomposition = Some (Inr threeResults, w3)
        \<and> history w3 = [Started (threeSubTasks ! 0), Started (threeSubTasks ! 2),
                        Finished (threeSubTasks ! 2), Finished (threeSubTasks ! 0),
                        Started (threeSubTasks ! 1), Finished (threeSubTasks ! 1)]"
  by (simp add: eval_defs threeSubTasks_def afterDecomposition_def threeResults_def)

lemma synthesisFailingRun_decompose:
  "decomposeTask synthesisFailingEnv (exampleSuperAgent 5 Adaptive) exampleTask
     (exampleWorld 60) = (Inr threeSubTasks, afterDecomposition)"
proof -
  have "decomposeTask synthesisFailingEnv (exampleSuperAgent 5 Adaptive) exampleTask
          (exampleWorld 60)
        = decomposeTask answeringEnv (exampleSuperAgent 5 Adaptive) exampleTask
            (exampleWorld 60)"
    by (simp add: eval_defs)
  with answeredRun_decompose show ?thesis by simp
qed

lemma synthesisFailingRun_workers:
  "\<exists>w3. executeByStrategy synthesisFailingEnv (exampleSuperAgent 5 Adaptive) threeSubTasks
           afterDecomposition = Some (Inr threeResults, w3)
        \<and> length (sent w3) = 4"
  by (simp add: eval_defs threeSubTasks_def afterDecomposition_def threeResults_def)


lemma undescribedRun_workers:
  "\<exists>w3. executeByStrategy undescribingEnv (exampleSuperAgent 5 Adaptive) [undescribedSubTask]
           afterUndescribedDecomposition
         = Some (Inl (JsError ''SQLite3 can only bind numbers, strings, bigints, buffers, and null''), w3)
        \<and> clock w3 = 1010
        \<and> history w3 = [Started undescribedSubTask, Finished undescribedSubTask]"
  by (simp add: eval_defs undescribedSubTask_def afterUndescribedDecomposition_def)

lemma executeByStrategy_Adaptive:
  "executeByStrategy env (exampleSuperAgent k Adaptive) ts w
     = executeAdaptive env (exampleSuperAgent k Adaptive) ts w"
  by (simp add: executeByStrategy_def exampleSuperAgent_def)

lemma example_statement_succeeds:
  "dbFault env = (\<lambda>k. None) \<Longrightarrow>
     fst (updateAgentStatus env i s r w) = None
     \<and> clock (snd (updateAgentStatus env i s r w)) = clock w"
  by (simp add: updateAgentStatus_def stmtRun_def Let_def)

lemma example_dbFault:
  "dbFault failingEnv = (\<lambda>k. None)" "dbFault answeringEnv = (\<lambda>k. None)"
  "dbFault synthesisFailingEnv = (\<lambda>k. None)" "dbFault undescribingEnv = (\<lambda>k. None)"
  by (simp_all add: failingEnv_def answeringEnv_def synthesisFailingEnv_def
      undescribingEnv_def exampleEnv_def)

lemma example_saveFinalResult:
  assumes "dbFault env = (\<lambda>k. None)"
  shows "saveFinalResult env (exampleSuperAgent bound strat) t final tokens cost w
         = (None, snd (saveFinalResult env (exampleSuperAgent bound strat) t final tokens cost w))"
proof -
  have "fst (saveFinalResult env (exampleSuperAgent bound strat) t final tokens cost w) = None"
    using example_statement_succeeds[OF assms]
    by (simp add: saveFinalResult_def exampleSuperAgent_def)
  then show ?thesis by (metis prod.collapse)
qed

text \<open>
  Claim C4 (the code does not do this).  The transport answers the decomposition
  request with \<open>[{"priority":1}]\<close>, so decomposition yields one sub-task whose
  description is \<open>undefined\<close>.  Its worker acquires an account and calls
  \<open>saveAgent\<close> with that description before entering the \<open>try\<close> block; the
  statement throws, and the promise of \<open>execute\<close> rejects with the exception
  instead of returning a failed result.  The request acquired on the account is not
  completed: its in-flight counter, 0 before the call, stays at 1.
\<close>

theorem C4_execute_rejects:
  "fst (decomposeTask undescribingEnv (exampleSuperAgent 5 Adaptive) exampleTask
          (exampleWorld 60)) = Inr [undescribedSubTask]
   \<and> activeRequests (stats (accounts (am afterUndescribedDecomposition) Account1)) = 0
   \<and> (\<exists>w'. execute undescribingEnv (exampleSuperAgent 5 Adaptive) undescribedSubTask
               afterUndescribedDecomposition
             = Some (Inl (JsError ''SQLite3 can only bind numbers, strings, bigints, buffers, and null''), w')
          \<and> activeRequests (stats (accounts (am w') Account1)) = 1
          \<and> db w' = [])"
  by (simp add: eval_defs undescribedSubTask_def afterUndescribedDecomposition_def)

text \<open>The totals of the answered run: 600 tokens and a cost of 0.0039.\<close>

theorem C3_accounting_witness:
  "\<exists>r w'. executeTask answeringEnv (exampleSuperAgent 5 Adaptive) exampleTask (exampleWorld 60)
             = Some (Inr r, w')
         \<and> tr_subResults r = threeResults
         \<and> tr_tokensUsed r = 600 \<and> sum_list (map r_tokensUsed (tr_subResults r)) = 600
         \<and> tr_cost r = 39 / 10000 \<and> sum_list (map r_cost (tr_subResults r)) = 39 / 10000"
proof -
  from answeredRun_workers obtain w3 where
    x: "executeByStrategy answeringEnv (exampleSuperAgent 5 Adaptive) threeSubTasks
          afterDecomposition = Some (Inr threeResults, w3)"
    by (auto simp: executeByStrategy_Adaptive)
  obtain final w4 where a: "aggregateResults answeringEnv (exampleSuperAgent 5 Adaptive)
      exampleTask threeResults w3 = (Inr final, w4)"
    using aggregateResults_returns by blast
  note run = executeTask_completes[OF saveTask_unsaved answeredRun_decompose x a
      example_saveFinalResult[OF example_dbFault(2)]]
  from C3_accounting[OF run] run show ?thesis
    by (simp add: threeResults_def)
qed


text \<open>The run in which the three workers are answered and the synthesis call fails:
  the text of the TaskResult is the three labelled blocks with the workers' texts.\<close>

theorem C9_synthesis_fallback_witness:
  "\<exists>w3 r w'.
      executeByStrategy synthesisFailingEnv (exampleSuperAgent 5 Adaptive) threeSubTasks
        afterDecomposition = Some (Inr threeResults, w3)
    \<and> chat synthesisFailingEnv (length (sent w3)) = ChatFails (JsError ''timeout'')
    \<and> fst (aggregateResults synthesisFailingEnv (exampleSuperAgent 5 Adaptive) exampleTask
              threeResults w3) = Inr (''
### Sub-Task 1
**Task:** id0
**Success:** true
**Result:**
done
    '' @ ''

'' @ ''
### Sub-Task 2
**Task:** id2
**Success:** true
**Result:**
done
    '' @ ''

'' @ ''
### Sub-Task 3
**Task:** id1
**Success:** true
**Result:**
done
    '')
    \<and> executeTask synthesisFailingEnv (exampleSuperAgent 5 Adaptive) exampleTask
        (exampleWorld 60) = Some (Inr r, w')
    \<and> tr_success r \<and> tr_subResults r = threeResults
    \<and> tr_result r = ''
### Sub-Task 1
**Task:** id0
**Success:** true
**Result:**
done
    '' @ ''

'' @ ''
### Sub-Task 2
**Task:** id2
**Success:** true
**Result:**
done
    '' @ ''

'' @ ''
### Sub-Task 3
**Task:** id1
**Success:** true
**Result:**
done
    ''"
proof -
  let ?sa = "exampleSuperAgent 5 Adaptive"
  let ?text = "join ''

'' (map (\<lambda>(i, r). ''
### Sub-Task '' @ showNat (i + 1) @ ''
**Task:** '' @ r_taskId r @ ''
**Success:** '' @ showBool (r_success r) @ ''
**Result:**
'' @ r_result r @ ''
    '') (zip [0..<length threeResults] threeResults))"
  from synthesisFailingRun_workers obtain w3 where
    x: "executeByStrategy synthesisFailingEnv ?sa threeSubTasks afterDecomposition
          = Some (Inr threeResults, w3)"
    and n: "length (sent w3) = 4"
    by blast
  have c: "chat synthesisFailingEnv (length (sent w3)) = ChatFails (JsError ''timeout'')"
    using n by (simp add: synthesisFailingEnv_def exampleEnv_def)
  note C9 = C9_synthesis_fallback[of threeResults synthesisFailingEnv w3 "JsError ''timeout''"
      ?sa exampleTask "exampleWorld 60", unfolded Let_def]
  from C9 c have agg: "fst (aggregateResults synthesisFailingEnv ?sa exampleTask
              threeResults w3) = Inr ?text"
    by blast
  from C9 saveTask_unsaved synthesisFailingRun_decompose x c
    example_saveFinalResult[OF example_dbFault(3)]
  obtain r w' where r: "executeTask synthesisFailingEnv ?sa exampleTask
      (exampleWorld 60) = Some (Inr r, w')" "tr_success r"
      "tr_result r = ?text" "tr_subResults r = threeResults"
    by meson
  have t: "?text = ''
### Sub-Task 1
**Task:** id0
**Success:** true
**Result:**
done
    '' @ ''

'' @ ''
### Sub-Task 2
**Task:** id2
**Success:** true
**Result:**
done
    '' @ ''

'' @ ''
### Sub-Task 3
**Task:** id1
**Success:** true
**Result:**
done
    ''"
    by (simp add: threeResults_def showBool_def upt_rec)
  from x c agg r show ?thesis unfolding t by blast
qed

text \<open>The answered run: the two simple sub-tasks run interleaved and end before
  the medium one starts.  The run with the sub-task without description: the worker
  of the only sub-task, which is not simple, rejects.\<close>

theorem C10_adaptive_order_witness:
  "0 < rateLimit (config (accounts (am afterDecomposition) Account1))
   \<and> (\<exists>out w'. executeAdaptive answeringEnv (exampleSuperAgent 5 Adaptive) threeSubTasks
               afterDecomposition = Some (out, w')
     \<and> (\<exists>results. out = Inr results \<and> map r_taskId results = [''id0'', ''id2'', ''id1''])
     \<and> history w' = history afterDecomposition @
          [Started (threeSubTasks ! 0), Started (threeSubTasks ! 2),
           Finished (threeSubTasks ! 2), Finished (threeSubTasks ! 0)] @
          [Started (threeSubTasks ! 1), Finished (threeSubTasks ! 1)])
   \<and> (\<exists>e w' h2. executeAdaptive undescribingEnv (exampleSuperAgent 5 Adaptive)
                  [undescribedSubTask] afterUndescribedDecomposition = Some (Inl e, w')
        \<and> history w' = history afterUndescribedDecomposition @ [] @ h2
        \<and> set h2 \<subseteq> {Started undescribedSubTask, Finished undescribedSubTask})"
proof -
  let ?sa = "exampleSuperAgent 5 Adaptive"
  have pos: "0 < rateLimit (config (accounts (am afterDecomposition) Account1))"
    by (simp add: afterDecomposition_def eval_defs)
  from answeredRun_workers obtain w3 where
    x: "executeAdaptive answeringEnv ?sa threeSubTasks afterDecomposition
          = Some (Inr threeResults, w3)"
    and h: "history w3 = [Started (threeSubTasks ! 0), Started (threeSubTasks ! 2),
                        Finished (threeSubTasks ! 2), Finished (threeSubTasks ! 0),
                        Started (threeSubTasks ! 1), Finished (threeSubTasks ! 1)]"
    by blast
  note C10 = C10_adaptive_order[of afterDecomposition Account1 answeringEnv ?sa threeSubTasks]
  from C10 pos obtain out0 w0 where
    "executeAdaptive answeringEnv ?sa threeSubTasks afterDecomposition = Some (out0, w0)"
    by blast
  from C10 x have
    "map r_taskId threeResults =
         map st_id (filter (\<lambda>t. st_complexity t = JStr ''simple'') threeSubTasks)
         @ map st_id (filter (\<lambda>t. st_complexity t \<noteq> JStr ''simple'') threeSubTasks)"
    by blast
  then have ids: "map r_taskId threeResults = [''id0'', ''id2'', ''id1'']"
    by (simp add: threeSubTasks_def)
  have h0: "history afterDecomposition = []"
    by (simp add: afterDecomposition_def eval_defs)
  have a: "\<exists>out w'. executeAdaptive answeringEnv ?sa threeSubTasks afterDecomposition
               = Some (out, w')
     \<and> (\<exists>results. out = Inr results \<and> map r_taskId results = [''id0'', ''id2'', ''id1''])
     \<and> history w' = history afterDecomposition @
          [Started (threeSubTasks ! 0), Started (threeSubTasks ! 2),
           Finished (threeSubTasks ! 2), Finished (threeSubTasks ! 0)] @
          [Started (threeSubTasks ! 1), Finished (threeSubTasks ! 1)]"
    using x h ids h0 by simp
  from undescribedRun_workers obtain w4 where
    y: "executeAdaptive undescribingEnv ?sa [undescribedSubTask] afterUndescribedDecomposition
          = Some (Inl (JsError ''SQLite3 can only bind numbers, strings, bigints, buffers, and null''), w4)"
    by (auto simp: executeByStrategy_Adaptive)
  from C10_adaptive_order[of afterUndescribedDecomposition Account1 undescribingEnv ?sa
      "[undescribedSubTask]"] y
  obtain h1 h2 where hh: "history w4 = history afterUndescribedDecomposition @ h1 @ h2"
    "set h1 \<subseteq> {e. \<exists>t\<in>set [undescribedSubTask]. st_complexity t = JStr ''simple''
                            \<and> (e = Started t \<or> e = Finished t)}"
    "set h2 \<subseteq> {e. \<exists>t\<in>set [undescribedSubTask]. st_complexity t \<noteq> JStr ''simple''
                            \<and> (e = Started t \<or> e = Finished t)}"
    by meson
  from hh(2) have "h1 = []" by (auto simp: undescribedSubTask_def)
  moreover from hh(3) have "set h2 \<subseteq> {Started undescribedSubTask, Finished undescribedSubTask}"
    by auto
  ultimately have b: "\<exists>e w' h2. executeAdaptive undescribingEnv ?sa
                  [undescribedSubTask] afterUndescribedDecomposition = Some (Inl e, w')
        \<and> history w' = history afterUndescribedDecomposition @ [] @ h2
        \<and> set h2 \<subseteq> {Started undescribedSubTask, Finished undescribedSubTask}"
    using y hh(1) by blast
  from pos a b show ?thesis by blast
qed
end
